theory Spec2Isabelle
  imports Complex_Main "HOL-Library.Word"
begin

unbundle bit_operations_syntax

section \<open>SSE vectors: four 32-bit lanes\<close>

text \<open>
  An \<open>__m128\<close> holds four single-precision lanes, an \<open>__m128i\<close> four 32-bit integer
  lanes. Lane 0 is the lowest element: the first argument of \<open>_mm_setr_ps\<close>, and
  \<open>color_index[0]\<close> of the union through which mandelbrot() reads the indices.
\<close>

datatype 'a vec4 = Vec4 (lane0: 'a) (lane1: 'a) (lane2: 'a) (lane3: 'a)

type_synonym m128i = "32 word vec4"

fun lane :: "nat \<Rightarrow> 'a vec4 \<Rightarrow> 'a" where
  "lane j (Vec4 a0 a1 a2 a3) = (if j = 0 then a0 else if j = 1 then a1 else if j = 2 then a2 else a3)"

fun lanewise :: "('a \<Rightarrow> 'b) \<Rightarrow> 'a vec4 \<Rightarrow> 'b vec4" where
  "lanewise f (Vec4 a0 a1 a2 a3) = Vec4 (f a0) (f a1) (f a2) (f a3)"

fun lanewise2 :: "('a \<Rightarrow> 'b \<Rightarrow> 'c) \<Rightarrow> 'a vec4 \<Rightarrow> 'b vec4 \<Rightarrow> 'c vec4" where
  "lanewise2 f (Vec4 a0 a1 a2 a3) (Vec4 b0 b1 b2 b3) = Vec4 (f a0 b0) (f a1 b1) (f a2 b2) (f a3 b3)"

fun all_lanes :: "('a \<Rightarrow> bool) \<Rightarrow> 'a vec4 \<Rightarrow> bool" where
  "all_lanes P (Vec4 a0 a1 a2 a3) = (P a0 \<and> P a1 \<and> P a2 \<and> P a3)"

fun all_lanes2 :: "('a \<Rightarrow> 'b \<Rightarrow> bool) \<Rightarrow> 'a vec4 \<Rightarrow> 'b vec4 \<Rightarrow> bool" where
  "all_lanes2 P (Vec4 a0 a1 a2 a3) (Vec4 b0 b1 b2 b3) = (P a0 b0 \<and> P a1 b1 \<and> P a2 b2 \<and> P a3 b3)"

subsection \<open>Integer intrinsics\<close>

definition mm_set1_epi32 :: "32 word \<Rightarrow> m128i" where
  "mm_set1_epi32 a = Vec4 a a a a"

definition mm_setzero_si128 :: m128i where
  "mm_setzero_si128 = Vec4 0 0 0 0"

definition mm_and_si128 :: "m128i \<Rightarrow> m128i \<Rightarrow> m128i" where
  "mm_and_si128 a b = lanewise2 (\<lambda>x y. x AND y) a b"

definition mm_xor_si128 :: "m128i \<Rightarrow> m128i \<Rightarrow> m128i" where
  "mm_xor_si128 a b = lanewise2 (\<lambda>x y. x XOR y) a b"

definition mm_add_epi32 :: "m128i \<Rightarrow> m128i \<Rightarrow> m128i" where
  "mm_add_epi32 a b = lanewise2 (\<lambda>x y. x + y) a b"

definition mm_sub_epi32 :: "m128i \<Rightarrow> m128i \<Rightarrow> m128i" where
  "mm_sub_epi32 a b = lanewise2 (\<lambda>x y. x - y) a b"

text \<open>A comparison intrinsic sets every bit of a lane where the comparison holds and
  clears the lane where it does not.\<close>

definition lane_mask :: "bool \<Rightarrow> 32 word" where
  "lane_mask b = (if b then 0xFFFFFFFF else 0)"

definition mm_cmpeq_epi32 :: "m128i \<Rightarrow> m128i \<Rightarrow> m128i" where
  "mm_cmpeq_epi32 a b = lanewise2 (\<lambda>x y. lane_mask (x = y)) a b"

text \<open>\<open>_mm_movemask_epi8\<close> collects the top bit of each of the 16 bytes: byte \<open>j\<close> of
  lane \<open>i\<close> gives bit \<open>4 * i + j\<close> of the result.\<close>

definition byte_msbs :: "32 word \<Rightarrow> int" where
  "byte_msbs w = of_bool (bit w 7) + 2 * of_bool (bit w 15)
               + 4 * of_bool (bit w 23) + 8 * of_bool (bit w 31)"

definition mm_movemask_epi8 :: "m128i \<Rightarrow> int" where
  "mm_movemask_epi8 v = byte_msbs (lane0 v) + 16 * byte_msbs (lane1 v)
                      + 256 * byte_msbs (lane2 v) + 4096 * byte_msbs (lane3 v)"

subsection \<open>Single-precision intrinsics\<close>

text \<open>
  member4() computes with three arithmetic instructions, one ordered comparison and the
  constant 4.0f. They are the fields of \<open>fpu\<close>, and every function that computes on
  floats takes the unit as its first argument: what is proved for every \<open>fpu\<close> holds of
  the hardware's arithmetic whatever it rounds to. \<open>ieee_single\<close> below is the unit the
  program runs on.
\<close>

record 'f fpu =
  fmul :: "'f \<Rightarrow> 'f \<Rightarrow> 'f"
  fadd :: "'f \<Rightarrow> 'f \<Rightarrow> 'f"
  fsub :: "'f \<Rightarrow> 'f \<Rightarrow> 'f"
  fcmplt :: "'f \<Rightarrow> 'f \<Rightarrow> bool"
  four :: 'f

definition mm_set1_ps :: "'f \<Rightarrow> 'f vec4" where
  "mm_set1_ps a = Vec4 a a a a"

definition mm_mul_ps :: "'f fpu \<Rightarrow> 'f vec4 \<Rightarrow> 'f vec4 \<Rightarrow> 'f vec4" where
  "mm_mul_ps fp a b = lanewise2 (fmul fp) a b"

definition mm_add_ps :: "'f fpu \<Rightarrow> 'f vec4 \<Rightarrow> 'f vec4 \<Rightarrow> 'f vec4" where
  "mm_add_ps fp a b = lanewise2 (fadd fp) a b"

definition mm_sub_ps :: "'f fpu \<Rightarrow> 'f vec4 \<Rightarrow> 'f vec4 \<Rightarrow> 'f vec4" where
  "mm_sub_ps fp a b = lanewise2 (fsub fp) a b"

text \<open>\<open>_mm_cmplt_ps\<close> leaves its lane masks in a float register; member4() reads them
  only through the cast to \<open>__m128i\<close>, so the model returns the integer lanes.\<close>

definition mm_cmplt_ps :: "'f fpu \<Rightarrow> 'f vec4 \<Rightarrow> 'f vec4 \<Rightarrow> m128i" where
  "mm_cmplt_ps fp a b = lanewise2 (\<lambda>x y. lane_mask (fcmplt fp x y)) a b"

section \<open>The constants of mandelbrot.cc\<close>

definition MAX_ITS :: "32 word" where
  "MAX_ITS = 500"

definition MAX_DEPTH :: int where
  "MAX_DEPTH = 150"

definition PAL_SIZE :: nat where
  "PAL_SIZE = 40"

text \<open>The iteration cap is a parameter \<open>mx\<close> of the functions that read it; the program
  as built runs them at \<open>MAX_ITS\<close>.\<close>

definition MAX_ITERATIONS_4 :: "32 word \<Rightarrow> m128i" where
  "MAX_ITERATIONS_4 mx = mm_set1_epi32 mx"

definition DIST_LIMIT_4 :: "'f fpu \<Rightarrow> 'f vec4" where
  "DIST_LIMIT_4 fp = mm_set1_ps (four fp)"

section \<open>member4\<close>

text \<open>The variables of member4() that live across the loop. \<open>mask_var\<close> is the
  variable \<open>mask\<close> of the loop's condition; \<open>aux4_a\<close> and \<open>aux4_b\<close> are temporaries
  of one pass.\<close>

record 'f member4_state =
  iterations4 :: m128i
  x4 :: "'f vec4"
  y4 :: "'f vec4"
  x_sq4 :: "'f vec4"
  y_sq4 :: "'f vec4"
  not_escape4 :: m128i
  mask_var :: int

text \<open>The statements before the loop.\<close>

definition member4_init :: "'f fpu \<Rightarrow> 32 word \<Rightarrow> 'f vec4 \<Rightarrow> 'f vec4 \<Rightarrow> 'f member4_state" where
  "member4_init fp mx cx4 cy4 =
    (let its = MAX_ITERATIONS_4 mx;
         x = cx4;
         y = cy4;
         x_sq = mm_mul_ps fp x x;
         y_sq = mm_mul_ps fp y y;
         aux4_a = mm_add_ps fp x_sq y_sq;
         zero4 = mm_setzero_si128;
         not_escape = mm_cmplt_ps fp aux4_a (DIST_LIMIT_4 fp);
         aux4_b = mm_and_si128 not_escape its;
         aux4_b = mm_cmpeq_epi32 aux4_b zero4
     in \<lparr>iterations4 = its, x4 = x, y4 = y, x_sq4 = x_sq, y_sq4 = y_sq,
         not_escape4 = not_escape, mask_var = mm_movemask_epi8 aux4_b\<rparr>)"

text \<open>One pass of the loop body. Every lane's orbit is advanced, escaped or not; what
  freezes an escaped lane is its cleared \<open>not_escape4\<close> lane, which adds 0 to its counter
  and stays cleared under the AND.\<close>

definition member4_body :: "'f fpu \<Rightarrow> 'f vec4 \<Rightarrow> 'f vec4 \<Rightarrow> 'f member4_state \<Rightarrow> 'f member4_state" where
  "member4_body fp cx4 cy4 s =
    (let its = mm_add_epi32 (iterations4 s) (not_escape4 s);
         y = mm_mul_ps fp (x4 s) (y4 s);
         y = mm_add_ps fp y y;
         y = mm_add_ps fp y cy4;
         x = mm_sub_ps fp (x_sq4 s) (y_sq4 s);
         x = mm_add_ps fp x cx4;
         x_sq = mm_mul_ps fp x x;
         y_sq = mm_mul_ps fp y y;
         aux4_a = mm_add_ps fp x_sq y_sq;
         not_escape = mm_and_si128 (mm_cmplt_ps fp aux4_a (DIST_LIMIT_4 fp)) (not_escape4 s);
         aux4_b = mm_and_si128 not_escape its;
         aux4_b = mm_cmpeq_epi32 aux4_b mm_setzero_si128
     in \<lparr>iterations4 = its, x4 = x, y4 = y, x_sq4 = x_sq, y_sq4 = y_sq,
         not_escape4 = not_escape, mask_var = mm_movemask_epi8 aux4_b\<rparr>)"

text \<open>\<open>while (mask != 0xFFFF)\<close>: nothing in the form of the loop bounds its passes, so
  it is a partial function, and \<open>None\<close> is a loop that never exits.\<close>

partial_function (option) member4_loop ::
  "'f fpu \<Rightarrow> 'f vec4 \<Rightarrow> 'f vec4 \<Rightarrow> 'f member4_state \<Rightarrow> 'f member4_state option" where
  "member4_loop fp cx4 cy4 s =
    (if mask_var s \<noteq> 0xFFFF then member4_loop fp cx4 cy4 (member4_body fp cx4 cy4 s)
     else Some s)"

definition member4 :: "'f fpu \<Rightarrow> 32 word \<Rightarrow> 'f vec4 \<Rightarrow> 'f vec4 \<Rightarrow> m128i option" where
  "member4 fp mx cx4 cy4 =
    map_option (\<lambda>s. mm_sub_epi32 (MAX_ITERATIONS_4 mx) (iterations4 s))
      (member4_loop fp cx4 cy4 (member4_init fp mx cx4 cy4))"

text \<open>The states the loop passes through from a state \<open>s\<close>: \<open>s\<close> itself, and the body's
  result on each of them that fails the exit test.\<close>

inductive member4_run ::
  "'f fpu \<Rightarrow> 'f vec4 \<Rightarrow> 'f vec4 \<Rightarrow> 'f member4_state \<Rightarrow> 'f member4_state \<Rightarrow> bool"
  for fp :: "'f fpu" and cx4 :: "'f vec4" and cy4 :: "'f vec4" and s :: "'f member4_state"
where
  run_start: "member4_run fp cx4 cy4 s s"
| run_pass: "member4_run fp cx4 cy4 s t \<Longrightarrow> mask_var t \<noteq> 0xFFFF \<Longrightarrow>
             member4_run fp cx4 cy4 s (member4_body fp cx4 cy4 t)"

section \<open>The scalar escape-time recurrence\<close>

text \<open>
  The recurrence on one point, in the specification's words: the orbit starts at
  \<open>z\<^sub>0 = c\<close>; the point has escaped when \<open>x\<^sup>2 + y\<^sup>2\<close> is not below 4.0, which for
  numbers is \<open>x\<^sup>2 + y\<^sup>2 \<ge> 4.0\<close>; otherwise the orbit advances by
  \<open>y' = 2xy + cy\<close>, \<open>x' = (x\<^sup>2 - y\<^sup>2) + cx\<close> and the step is counted; the loop stops
  at the escape, or after \<open>MAX_ITS\<close> steps. The floating-point expressions are those of
  member4(): \<open>2xy\<close> is \<open>xy + xy\<close>.
\<close>

definition escaped :: "'f fpu \<Rightarrow> 'f \<times> 'f \<Rightarrow> bool" where
  "escaped fp p =
    (\<not> fcmplt fp (fadd fp (fmul fp (fst p) (fst p)) (fmul fp (snd p) (snd p))) (four fp))"

definition orbit_step :: "'f fpu \<Rightarrow> 'f \<Rightarrow> 'f \<Rightarrow> 'f \<times> 'f \<Rightarrow> 'f \<times> 'f" where
  "orbit_step fp cx cy p =
    (fadd fp (fsub fp (fmul fp (fst p) (fst p)) (fmul fp (snd p) (snd p))) cx,
     fadd fp (fadd fp (fmul fp (fst p) (snd p)) (fmul fp (fst p) (snd p))) cy)"

fun escape_time :: "'f fpu \<Rightarrow> 'f \<Rightarrow> 'f \<Rightarrow> nat \<Rightarrow> 'f \<times> 'f \<Rightarrow> nat" where
  "escape_time fp cx cy 0 p = 0"
| "escape_time fp cx cy (Suc n) p =
    (if escaped fp p then 0 else Suc (escape_time fp cx cy n (orbit_step fp cx cy p)))"

definition scalar_member :: "'f fpu \<Rightarrow> 32 word \<Rightarrow> 'f \<Rightarrow> 'f \<Rightarrow> nat" where
  "scalar_member fp mx cx cy = escape_time fp cx cy (unat mx) (cx, cy)"

section \<open>mandelbrot(): from iteration counts to colours\<close>

text \<open>The palette array, one RGB triple per line as in the source.\<close>

definition pal :: "8 word list" where
  "pal = [
     0, 0, 0,
     255, 180, 4,
     240, 156, 4,
     220, 124, 4,
     156, 71, 4,
     72, 20, 4,
     251, 180, 4,
     180, 74, 4,
     180, 70, 4,
     164, 91, 4,
     100, 28, 4,
     191, 82, 4,
     47, 5, 4,
     138, 39, 4,
     81, 27, 4,
     192, 89, 4,
     61, 27, 4,
     216, 148, 4,
     71, 14, 4,
     142, 48, 4,
     196, 102, 4,
     58, 9, 4,
     132, 45, 4,
     95, 15, 4,
     92, 21, 4,
     166, 59, 4,
     244, 178, 4,
     194, 121, 4,
     120, 41, 4,
     53, 14, 4,
     80, 15, 4,
     23, 3, 4,
     249, 204, 4,
     97, 25, 4,
     124, 30, 4,
     151, 57, 4,
     104, 36, 4,
     239, 171, 4,
     131, 57, 4,
     111, 23, 4,
     4, 2, 4,
     255, 180, 4,
     240, 156, 4,
     220, 124, 4,
     156, 71, 4,
     72, 20, 4,
     251, 180, 4,
     180, 74, 4,
     180, 70, 4,
     164, 91, 4,
     100, 28, 4,
     191, 82, 4,
     47, 5, 4,
     138, 39, 4,
     81, 27, 4,
     192, 89, 4,
     61, 27, 4,
     216, 148, 4,
     71, 14, 4,
     142, 48, 4,
     196, 102, 4,
     58, 9, 4,
     132, 45, 4,
     95, 15, 4,
     92, 21, 4
   ]"

definition increment4 :: m128i where
  "increment4 = mm_set1_epi32 1"

definition all_ones_mask4 :: m128i where
  "all_ones_mask4 = mm_set1_epi32 0xFFFFFFFF"

definition mod_mask4 :: m128i where
  "mod_mask4 = mm_set1_epi32 0x3F"

text \<open>The statements between the call of member4() and the union: the four colour
  indices of a batch, from its four iteration counts.\<close>

definition color_index4 :: "32 word \<Rightarrow> m128i \<Rightarrow> m128i" where
  "color_index4 mx its4 =
    (let max_mask4 = mm_cmpeq_epi32 its4 (MAX_ITERATIONS_4 mx);
         max_mask4 = mm_xor_si128 max_mask4 all_ones_mask4;
         its4 = mm_and_si128 its4 mod_mask4;
         its4 = mm_add_epi32 its4 increment4;
         its4 = mm_and_si128 its4 max_mask4
     in its4)"

text \<open>The three palette reads of one pixel: \<open>index = color_index * 3\<close> as an \<open>int\<close>,
  then \<open>pal[index]\<close>, \<open>pal[index + 1]\<close>, \<open>pal[index + 2]\<close>. A read outside the array
  is \<open>None\<close>.\<close>

definition pixel_rgb :: "32 word \<Rightarrow> (8 word \<times> 8 word \<times> 8 word) option" where
  "pixel_rgb color_index =
    (let index = sint color_index * 3
     in if 0 \<le> index \<and> index + 2 < int (length pal)
        then Some (pal ! nat index, pal ! nat (index + 1), pal ! nat (index + 2))
        else None)"

text \<open>One round of the inner loop: the colours that the four calls of putpixel() get
  for the batch at \<open>(x4, y4)\<close>.\<close>

definition batch_colors ::
  "'f fpu \<Rightarrow> 32 word \<Rightarrow> 'f vec4 \<Rightarrow> 'f vec4 \<Rightarrow> (8 word \<times> 8 word \<times> 8 word) option vec4 option" where
  "batch_colors fp mx x4v y4v =
    map_option (\<lambda>its4. lanewise pixel_rgb (color_index4 mx its4)) (member4 fp mx x4v y4v)"

text \<open>The colour ramp as it was authored: \<open>PAL_SIZE\<close> colours, the palette's entries
  1 to 40, after the black entry 0. The entries 41 to 64 repeat the first 24 of them.\<close>

definition authored_ramp :: "nat \<Rightarrow> 8 word \<times> 8 word \<times> 8 word" where
  "authored_ramp p = (pal ! (3 * (p + 1)), pal ! (3 * (p + 1) + 1), pal ! (3 * (p + 1) + 2))"

section \<open>mandelbrot(): the zoom\<close>

text \<open>The variables that the end of a frame changes. \<open>zoom_multiplier\<close> is the constant
  \<open>1.0f / ZOOM_FACTOR\<close>, computed once before the frame loop.\<close>

record 'f view_window =
  delta_x4 :: "'f vec4"
  x_offset4 :: "'f vec4"
  delta_y :: 'f
  y_offset :: 'f
  depth :: int

definition zoom_step :: "'f fpu \<Rightarrow> 'f \<Rightarrow> 'f view_window \<Rightarrow> 'f view_window" where
  "zoom_step fp zoom_multiplier w =
    (if depth w < MAX_DEPTH then
       \<lparr>delta_x4 = mm_mul_ps fp (delta_x4 w) (mm_set1_ps zoom_multiplier),
        x_offset4 = mm_mul_ps fp (x_offset4 w) (mm_set1_ps zoom_multiplier),
        delta_y = fmul fp (delta_y w) zoom_multiplier,
        y_offset = fmul fp (y_offset w) zoom_multiplier,
        depth = depth w + 1\<rparr>
     else w)"

section \<open>The single-precision unit\<close>

text \<open>
  The arithmetic of the SSE unit in the state a process starts in: IEEE 754 binary32,
  results rounded to nearest (ties to even), subnormal numbers kept, exceptions masked.
  A float is its 32 bits: the sign, eight bits of biased exponent, 23 bits of fraction.
\<close>

type_synonym float32 = "32 word"

text \<open>\<open>Finite s m e\<close> is the number \<open>(-1)\<^sup>s * m * 2\<^sup>e\<close>.\<close>

datatype f32_value = NaN | Infinity bool | Finite bool int int

definition f32_decode :: "float32 \<Rightarrow> f32_value" where
  "f32_decode w =
    (let s = bit w 31;
         e = uint (drop_bit 23 w AND 0xFF);
         f = uint (w AND 0x7FFFFF)
     in if e = 255 then (if f = 0 then Infinity s else NaN)
        else if e = 0 then Finite s f (- 149)
        else Finite s (2 ^ 23 + f) (e - 150))"

definition f32_signbit :: "bool \<Rightarrow> float32" where
  "f32_signbit s = (if s then 0x80000000 else 0)"

definition f32_inf :: "bool \<Rightarrow> float32" where
  "f32_inf s = f32_signbit s OR 0x7F800000"

text \<open>An invalid operation returns the default NaN; an operation on a NaN returns that
  NaN, quieted.\<close>

definition f32_indefinite :: float32 where
  "f32_indefinite = 0xFFC00000"

definition f32_quiet :: "float32 \<Rightarrow> float32" where
  "f32_quiet w = w OR 0x00400000"

function bit_length :: "int \<Rightarrow> nat" where
  "bit_length n = (if n \<le> 0 then 0 else Suc (bit_length (n div 2)))"
  by pat_completeness auto
termination
  by (relation "measure nat") auto

declare bit_length.simps [simp del]

text \<open>\<open>f32_round s m e\<close> is the float nearest to \<open>(-1)\<^sup>s * m * 2\<^sup>e\<close>, for \<open>m \<ge> 0\<close>.
  The result is a multiple of \<open>2\<^sup>q\<close>, its unit in the last place: \<open>q = f32_ulp m e\<close>
  leaves 24 significant bits, but is never below -149, the unit of the subnormal numbers.
  The bits below the unit are rounded off, a tie to the even neighbour. \<open>mag\<close> is the
  exponent field and the fraction together: a significand that rounds up to 24 bits and
  one carries into the exponent by the addition, and a \<open>mag\<close> that reaches the exponent
  255 is an overflow to infinity.\<close>

definition f32_ulp :: "int \<Rightarrow> int \<Rightarrow> int" where
  "f32_ulp m e = max (e + int (bit_length m) - 24) (- 149)"

definition round_half_even :: "int \<Rightarrow> nat \<Rightarrow> int" where
  "round_half_even m sh =
    (let m0 = m div 2 ^ sh;
         r = m mod 2 ^ sh;
         half = 2 ^ (sh - 1)
     in if half < r \<or> (r = half \<and> odd m0) then m0 + 1 else m0)"

definition f32_round :: "bool \<Rightarrow> int \<Rightarrow> int \<Rightarrow> float32" where
  "f32_round s m e =
    (if m = 0 then f32_signbit s
     else
       let q = f32_ulp m e;
           mr = (if q \<le> e then m * 2 ^ nat (e - q) else round_half_even m (nat (q - e)));
           mag = (q + 149) * 2 ^ 23 + mr
       in if 0x7F800000 \<le> mag then f32_inf s else f32_signbit s OR word_of_int mag)"

definition f32_mul :: "float32 \<Rightarrow> float32 \<Rightarrow> float32" where
  "f32_mul a b =
    (case f32_decode a of
       NaN \<Rightarrow> f32_quiet a
     | Infinity s \<Rightarrow>
         (case f32_decode b of
            NaN \<Rightarrow> f32_quiet b
          | Infinity t \<Rightarrow> f32_inf (s \<noteq> t)
          | Finite t n f \<Rightarrow> if n = 0 then f32_indefinite else f32_inf (s \<noteq> t))
     | Finite s m e \<Rightarrow>
         (case f32_decode b of
            NaN \<Rightarrow> f32_quiet b
          | Infinity t \<Rightarrow> if m = 0 then f32_indefinite else f32_inf (s \<noteq> t)
          | Finite t n f \<Rightarrow> f32_round (s \<noteq> t) (m * n) (e + f)))"

text \<open>The quotient of two finite numbers is rounded from 64 more bits than the
  dividend has, and one more that is set when the division leaves a remainder.\<close>

definition f32_div :: "float32 \<Rightarrow> float32 \<Rightarrow> float32" where
  "f32_div a b =
    (case f32_decode a of
       NaN \<Rightarrow> f32_quiet a
     | Infinity s \<Rightarrow>
         (case f32_decode b of
            NaN \<Rightarrow> f32_quiet b
          | Infinity t \<Rightarrow> f32_indefinite
          | Finite t n f \<Rightarrow> f32_inf (s \<noteq> t))
     | Finite s m e \<Rightarrow>
         (case f32_decode b of
            NaN \<Rightarrow> f32_quiet b
          | Infinity t \<Rightarrow> f32_signbit (s \<noteq> t)
          | Finite t n f \<Rightarrow>
              if n = 0 then (if m = 0 then f32_indefinite else f32_inf (s \<noteq> t))
              else
                let num = m * 2 ^ 64;
                    sticky = (if num mod n = 0 then 0 else 1)
                in f32_round (s \<noteq> t) (2 * (num div n) + sticky) (e - f - 65)))"

definition f32_signed :: "bool \<Rightarrow> int \<Rightarrow> int" where
  "f32_signed s m = (if s then - m else m)"

text \<open>A sum that is exactly zero is \<open>+0\<close>, unless both terms are negative.\<close>

definition f32_add :: "float32 \<Rightarrow> float32 \<Rightarrow> float32" where
  "f32_add a b =
    (case f32_decode a of
       NaN \<Rightarrow> f32_quiet a
     | Infinity s \<Rightarrow>
         (case f32_decode b of
            NaN \<Rightarrow> f32_quiet b
          | Infinity t \<Rightarrow> if s = t then a else f32_indefinite
          | Finite t n f \<Rightarrow> a)
     | Finite s m e \<Rightarrow>
         (case f32_decode b of
            NaN \<Rightarrow> f32_quiet b
          | Infinity t \<Rightarrow> b
          | Finite t n f \<Rightarrow>
              let g = min e f;
                  v = f32_signed s (m * 2 ^ nat (e - g)) + f32_signed t (n * 2 ^ nat (f - g))
              in if v = 0 then f32_signbit (s \<and> t) else f32_round (v < 0) \<bar>v\<bar> g))"

definition f32_sub :: "float32 \<Rightarrow> float32 \<Rightarrow> float32" where
  "f32_sub a b =
    (case f32_decode b of
       NaN \<Rightarrow> (case f32_decode a of NaN \<Rightarrow> f32_quiet a | _ \<Rightarrow> f32_quiet b)
     | _ \<Rightarrow> f32_add a (b XOR 0x80000000))"

text \<open>The ordered comparison: false when an operand is a NaN; otherwise the order of
  the numbers, which is the order of their bits read as sign and magnitude.\<close>

definition f32_key :: "float32 \<Rightarrow> int" where
  "f32_key w = f32_signed (bit w 31) (uint (w AND 0x7FFFFFFF))"

definition f32_lt :: "float32 \<Rightarrow> float32 \<Rightarrow> bool" where
  "f32_lt a b = (f32_decode a \<noteq> NaN \<and> f32_decode b \<noteq> NaN \<and> f32_key a < f32_key b)"

definition ieee_single :: "float32 fpu" where
  "ieee_single =
    \<lparr>fmul = f32_mul, fadd = f32_add, fsub = f32_sub, fcmplt = f32_lt, four = 0x40800000\<rparr>"

section \<open>One lane of member4, in closed form\<close>

text \<open>What pass \<open>k\<close> of the loop leaves in the lane of the point \<open>(cx, cy)\<close>: the orbit's
  \<open>k\<close>-th point; whether no point of the orbit up to the \<open>k\<close>-th has escaped; the counter
  of the lane.\<close>

definition lane_orbit :: "'f fpu \<Rightarrow> nat \<Rightarrow> 'f \<Rightarrow> 'f \<Rightarrow> 'f \<times> 'f" where
  "lane_orbit fp k cx cy = (orbit_step fp cx cy ^^ k) (cx, cy)"

definition lane_alive :: "'f fpu \<Rightarrow> nat \<Rightarrow> 'f \<Rightarrow> 'f \<Rightarrow> bool" where
  "lane_alive fp k cx cy = (escape_time fp cx cy (Suc k) (cx, cy) = Suc k)"

definition lane_iterations :: "'f fpu \<Rightarrow> 32 word \<Rightarrow> nat \<Rightarrow> 'f \<Rightarrow> 'f \<Rightarrow> 32 word" where
  "lane_iterations fp mx k cx cy = mx - of_nat (escape_time fp cx cy k (cx, cy))"

definition after_passes :: "'f fpu \<Rightarrow> 32 word \<Rightarrow> 'f vec4 \<Rightarrow> 'f vec4 \<Rightarrow> nat \<Rightarrow> 'f member4_state" where
  "after_passes fp mx cx4 cy4 k =
    (let its = lanewise2 (lane_iterations fp mx k) cx4 cy4;
         x = lanewise2 (\<lambda>cx cy. fst (lane_orbit fp k cx cy)) cx4 cy4;
         y = lanewise2 (\<lambda>cx cy. snd (lane_orbit fp k cx cy)) cx4 cy4;
         not_escape = lanewise2 (\<lambda>cx cy. lane_mask (lane_alive fp k cx cy)) cx4 cy4
     in \<lparr>iterations4 = its, x4 = x, y4 = y, x_sq4 = mm_mul_ps fp x x, y_sq4 = mm_mul_ps fp y y,
         not_escape4 = not_escape,
         mask_var = mm_movemask_epi8 (mm_cmpeq_epi32 (mm_and_si128 not_escape its) mm_setzero_si128)\<rparr>)"

text \<open>A lane is done at pass \<open>k\<close> when it has escaped or the cap is reached.\<close>

definition lane_done :: "'f fpu \<Rightarrow> 32 word \<Rightarrow> nat \<Rightarrow> 'f \<Rightarrow> 'f \<Rightarrow> bool" where
  "lane_done fp mx k cx cy = (\<not> lane_alive fp k cx cy \<or> k = unat mx)"

text \<open>One lane of \<open>color_index4\<close>.\<close>

definition lane_color_index :: "32 word \<Rightarrow> 32 word \<Rightarrow> 32 word" where
  "lane_color_index mx k = (if k = mx then 0 else (k AND 0x3F) + 1)"


section \<open>mandelbrot(): the zoom, in single precision\<close>

text \<open>\<open>const float ZOOM_FACTOR = 1.07\<close>: the float nearest to 1.07, by its bits.
  \<open>zoom_multiplier\<close> is \<open>1.0f / ZOOM_FACTOR\<close>.\<close>

definition ZOOM_FACTOR :: float32 where
  "ZOOM_FACTOR = 0x3F88F5C3"

definition zoom_multiplier :: float32 where
  "zoom_multiplier = f32_div 0x3F800000 ZOOM_FACTOR"

text \<open>The window before the first frame. The integer operands are converted to
  \<open>float\<close> before the operation: \<open>X_RES\<close> and \<open>Y_RES\<close> to 700.0 (\<open>0x442F0000\<close>), 4 to 4.0
  (\<open>0x40800000\<close>), 2 and 3 to 2.0 and 3.0 (\<open>0x40000000\<close>, \<open>0x40400000\<close>); 1.0 is
  \<open>0x3F800000\<close> and -0.5 is \<open>0xBF000000\<close>.\<close>

definition initial_window :: "float32 view_window" where
  "initial_window =
    (let delta_x = f32_mul (f32_div 0x3F800000 0x442F0000) 0x40800000;
         center = f32_mul 0xBF000000 0x40800000
     in \<lparr>delta_x4 = mm_set1_ps (f32_mul delta_x 0x40800000),
         x_offset4 = Vec4 center (f32_add center delta_x)
                       (f32_add center (f32_mul 0x40000000 delta_x))
                       (f32_add center (f32_mul 0x40400000 delta_x)),
         delta_y = f32_mul (f32_div 0x3F800000 0x442F0000) 0x40800000,
         y_offset = center,
         depth = 0\<rparr>)"

text \<open>The real number that a finite float stands for.\<close>

definition f32_finite :: "float32 \<Rightarrow> bool" where
  "f32_finite w = (case f32_decode w of Finite s m e \<Rightarrow> True | _ \<Rightarrow> False)"

definition f32_real :: "float32 \<Rightarrow> real" where
  "f32_real w =
    (case f32_decode w of
       Finite s m e \<Rightarrow> (if s then - 1 else 1) * (real_of_int m * 2 powi e)
     | _ \<Rightarrow> 0)"

text \<open>\<open>zoomed old new\<close>: the float \<open>new\<close> is the number \<open>old\<close> divided by \<open>ZOOM_FACTOR\<close>, up
  to the floating-point tolerance: a relative error of \<open>1 / 2 ^ 22\<close>, four times the unit
  roundoff of single precision (the program multiplies by the rounded reciprocal, two
  roundings), and an absolute error of \<open>1 / 2 ^ 149\<close>, the smallest subnormal (a
  quotient below the normal range is rounded to a multiple of it).\<close>

definition zoomed :: "float32 \<Rightarrow> float32 \<Rightarrow> bool" where
  "zoomed old new =
    (f32_finite new
     \<and> \<bar>f32_real new - f32_real old / f32_real ZOOM_FACTOR\<bar>
         \<le> \<bar>f32_real old / f32_real ZOOM_FACTOR\<bar> / 2 ^ 22 + 1 / 2 ^ 149)"

text \<open>The significand that \<open>f32_round s m e\<close> encodes, at the exponent \<open>f32_ulp m e\<close>.\<close>

definition f32_sig :: "int \<Rightarrow> int \<Rightarrow> int" where
  "f32_sig m e =
    (if f32_ulp m e \<le> e then m * 2 ^ nat (e - f32_ulp m e)
     else round_half_even m (nat (f32_ulp m e - e)))"
section \<open>Lemmas on vectors and masks\<close>

lemma lane_lanewise2: "lane j (lanewise2 f a b) = f (lane j a) (lane j b)"
  by (cases a; cases b) simp

lemma lanewise_lanewise: "lanewise f (lanewise g v) = lanewise (\<lambda>x. f (g x)) v"
  by (cases v) simp

lemma all_lanes_lanewise: "all_lanes P (lanewise f v) = all_lanes (\<lambda>x. P (f x)) v"
  by (cases v) simp

lemma all_lanes2_lanewise: "all_lanes2 P v (lanewise f v) = all_lanes (\<lambda>x. P x (f x)) v"
  by (cases v) simp

lemma all_lanes_triv: "(\<And>x. P x) \<Longrightarrow> all_lanes P v"
  by (cases v) simp

lemma all_lanes2_triv: "(\<And>x y. P x y) \<Longrightarrow> all_lanes2 P a b"
  by (cases a; cases b) simp

lemma all_lanes_mono: "all_lanes P v \<Longrightarrow> (\<And>x. P x \<Longrightarrow> Q x) \<Longrightarrow> all_lanes Q v"
  by (cases v) simp

lemma all_ones_word: "(0xFFFFFFFF :: 32 word) = - 1"
  by simp

lemma lane_mask_minus1: "lane_mask b = (if b then - 1 else 0)"
  by (simp add: lane_mask_def)

lemma lane_mask_and: "lane_mask a AND lane_mask b = lane_mask (a \<and> b)"
  by (simp add: lane_mask_def)

lemma byte_msbs_lane_mask: "byte_msbs (lane_mask b) = (if b then 15 else 0)"
  by (simp add: byte_msbs_def lane_mask_def)

text \<open>The exit test of the loop, \<open>mask == 0xFFFF\<close>, holds exactly when the two compared
  vectors agree in all four lanes.\<close>

lemma movemask_cmpeq: "mm_movemask_epi8 (mm_cmpeq_epi32 a b) = 0xFFFF \<longleftrightarrow> a = b"
  by (cases a; cases b)
     (auto simp add: mm_movemask_epi8_def mm_cmpeq_epi32_def byte_msbs_lane_mask)

section \<open>The scalar recurrence\<close>

lemma escape_time_le: "escape_time fp cx cy k p \<le> k"
  by (induction k arbitrary: p) auto

lemma escape_time_escaped: "escaped fp p \<Longrightarrow> escape_time fp cx cy n p = 0"
  by (cases n) simp_all

text \<open>One more step of budget counts one more step exactly when the budget so far was
  used up and the point reached is still inside.\<close>

lemma escape_time_Suc:
  "escape_time fp cx cy (Suc k) p =
    (if escape_time fp cx cy k p = k \<and> \<not> escaped fp ((orbit_step fp cx cy ^^ k) p)
     then Suc k else escape_time fp cx cy k p)"
proof (induction k arbitrary: p)
  case 0
  show ?case by simp
next
  case (Suc k)
  show ?case
  proof (cases "escaped fp p")
    case True
    then show ?thesis by simp
  next
    case False
    have "escape_time fp cx cy (Suc (Suc k)) p
        = Suc (escape_time fp cx cy (Suc k) (orbit_step fp cx cy p))"
      using False by simp
    also have "\<dots> = Suc (if escape_time fp cx cy k (orbit_step fp cx cy p) = k
                           \<and> \<not> escaped fp ((orbit_step fp cx cy ^^ k) (orbit_step fp cx cy p))
                         then Suc k else escape_time fp cx cy k (orbit_step fp cx cy p))"
      by (simp only: Suc)
    also have "\<dots> = (if escape_time fp cx cy (Suc k) p = Suc k
                        \<and> \<not> escaped fp ((orbit_step fp cx cy ^^ Suc k) p)
                      then Suc (Suc k) else escape_time fp cx cy (Suc k) p)"
      using False by (simp add: funpow_swap1)
    finally show ?thesis .
  qed
qed

lemma escape_time_word:
  "unat (of_nat (escape_time fp cx cy k p) :: 32 word) = escape_time fp cx cy k p"
  if "k \<le> unat (mx :: 32 word)"
proof -
  have "escape_time fp cx cy k p \<le> unat mx"
    using escape_time_le [of fp cx cy k p] that by linarith
  also have "unat mx < 2 ^ 32"
    using unsigned_less [of mx, where 'a = nat] by simp
  finally show ?thesis by (simp add: unat_of_nat)
qed

text \<open>A point whose orbit is a cycle of two points inside the limit uses up any budget.\<close>

lemma escape_time_cycle2:
  assumes "\<not> escaped fp p" "\<not> escaped fp q"
    and "orbit_step fp cx cy p = q" "orbit_step fp cx cy q = p"
  shows "escape_time fp cx cy n p = n \<and> escape_time fp cx cy n q = n"
  using assms by (induction n) simp_all

section \<open>One lane of member4\<close>

lemma lane_orbit_Suc: "lane_orbit fp (Suc k) cx cy = orbit_step fp cx cy (lane_orbit fp k cx cy)"
  by (simp add: lane_orbit_def)

lemma lane_alive_0: "lane_alive fp 0 cx cy = (\<not> escaped fp (cx, cy))"
  by (simp add: lane_alive_def)

lemma lane_alive_Suc:
  "lane_alive fp (Suc k) cx cy
    = (lane_alive fp k cx cy \<and> \<not> escaped fp (lane_orbit fp (Suc k) cx cy))"
proof -
  have "escape_time fp cx cy (Suc k) (cx, cy) \<noteq> Suc (Suc k)"
    using escape_time_le [of fp cx cy "Suc k" "(cx, cy)"] by linarith
  then show ?thesis
    unfolding lane_alive_def lane_orbit_def
    by (subst escape_time_Suc [of fp cx cy "Suc k"]) auto
qed

lemma lane_alive_count:
  assumes "lane_alive fp k cx cy"
  shows "escape_time fp cx cy k (cx, cy) = k"
proof -
  have "escape_time fp cx cy (Suc k) (cx, cy) = Suc k"
    using assms by (simp add: lane_alive_def)
  then show ?thesis
    using escape_time_le [of fp cx cy k "(cx, cy)"]
    by (subst (asm) escape_time_Suc) (auto split: if_splits)
qed

lemma lane_dead_count:
  assumes "\<not> lane_alive fp k cx cy"
  shows "escape_time fp cx cy (Suc k) (cx, cy) = escape_time fp cx cy k (cx, cy)"
proof -
  have "escape_time fp cx cy (Suc k) (cx, cy) \<noteq> Suc k"
    using assms by (simp only: lane_alive_def not_False_eq_True)
  then show ?thesis
    using escape_time_Suc [of fp cx cy k "(cx, cy)"] by (metis (full_types))
qed

lemma lane_iterations_0: "lane_iterations fp mx 0 cx cy = mx"
  by (simp add: lane_iterations_def)

text \<open>The counter of a lane goes down by one in a pass exactly when the lane is alive:
  adding the lane's mask adds \<open>-1\<close> or 0.\<close>

lemma lane_iterations_Suc:
  "lane_iterations fp mx (Suc k) cx cy
    = lane_iterations fp mx k cx cy + lane_mask (lane_alive fp k cx cy)"
proof (cases "lane_alive fp k cx cy")
  case True
  then have "escape_time fp cx cy (Suc k) (cx, cy) = Suc k"
    by (simp add: lane_alive_def)
  then show ?thesis
    using True lane_alive_count [OF True]
    by (simp add: lane_iterations_def lane_mask_def del: escape_time.simps(2))
next
  case False
  then show ?thesis
    using lane_dead_count [OF False]
    by (simp add: lane_iterations_def lane_mask_def del: escape_time.simps(2))
qed

lemma lane_alive_iterations:
  "lane_alive fp k cx cy \<Longrightarrow> lane_iterations fp mx k cx cy = mx - of_nat k"
  by (simp add: lane_iterations_def lane_alive_count)

lemma lane_iterations_range:
  assumes "k \<le> unat mx"
  shows "lane_iterations fp mx k cx cy \<le> mx"
proof -
  have "escape_time fp cx cy k (cx, cy) \<le> unat mx"
    using escape_time_le [of fp cx cy k "(cx, cy)"] assms by linarith
  then have "(of_nat (escape_time fp cx cy k (cx, cy)) :: 32 word) \<le> mx"
    by (simp add: word_le_nat_alt escape_time_word [OF assms])
  then show ?thesis
    unfolding lane_iterations_def by (simp add: word_sub_le)
qed

text \<open>The lane's part of the exit test, \<open>(not_escape AND iterations) == 0\<close>.\<close>

lemma lane_exit_test:
  assumes "k \<le> unat mx"
  shows "lane_mask (lane_alive fp k cx cy) AND lane_iterations fp mx k cx cy = 0
         \<longleftrightarrow> lane_done fp mx k cx cy"
proof (cases "lane_alive fp k cx cy")
  case False
  then show ?thesis by (simp add: lane_mask_def lane_done_def)
next
  case True
  have "mx - of_nat k = 0 \<longleftrightarrow> k = unat mx"
  proof
    assume "mx - of_nat k = 0"
    then have "mx = of_nat k" by simp
    moreover have "k < 2 ^ 32"
      using assms unsigned_less [of mx, where 'a = nat] by simp
    ultimately show "k = unat mx" by (simp add: unat_of_nat)
  next
    assume "k = unat mx"
    then show "mx - of_nat k = 0" by simp
  qed
  then show ?thesis using True
    by (simp add: lane_mask_minus1 lane_done_def lane_alive_iterations)
qed

lemma lane_done_state:
  assumes "lane_done fp mx k cx cy" "k \<le> unat mx"
  shows "lane_mask (lane_alive fp k cx cy) = 0 \<or> lane_iterations fp mx k cx cy = 0"
  using lane_exit_test [OF assms(2), of fp cx cy] assms(1)
  by (cases "lane_alive fp k cx cy") (simp_all add: lane_mask_minus1)

text \<open>Once a lane has escaped, more budget counts no more steps.\<close>

lemma escape_time_frozen:
  "\<not> lane_alive fp k cx cy \<Longrightarrow> k \<le> n \<Longrightarrow>
   escape_time fp cx cy n (cx, cy) = escape_time fp cx cy k (cx, cy)"
proof (induction n)
  case 0
  then show ?case by simp
next
  case (Suc n)
  show ?case
  proof (cases "k = Suc n")
    case True
    then show ?thesis by simp
  next
    case False
    then have kn: "k \<le> n" using Suc.prems(2) by linarith
    then have eq: "escape_time fp cx cy n (cx, cy) = escape_time fp cx cy k (cx, cy)"
      using Suc by blast
    have "escape_time fp cx cy n (cx, cy) \<noteq> n \<or> escaped fp ((orbit_step fp cx cy ^^ n) (cx, cy))"
    proof (cases "k = n")
      case True
      then have "escape_time fp cx cy (Suc n) (cx, cy) \<noteq> Suc n"
        using Suc.prems(1) by (simp only: lane_alive_def not_False_eq_True)
      then show ?thesis
        using escape_time_Suc [of fp cx cy n "(cx, cy)"] by (metis (full_types))
    next
      case False
      then have "k < n" using kn by linarith
      moreover have "escape_time fp cx cy k (cx, cy) \<le> k" by (rule escape_time_le)
      ultimately show ?thesis using eq by linarith
    qed
    then have "escape_time fp cx cy (Suc n) (cx, cy) = escape_time fp cx cy n (cx, cy)"
      by (subst escape_time_Suc) (auto simp del: escape_time.simps(2))
    then show ?thesis using eq by (simp del: escape_time.simps(2))
  qed
qed

lemma lane_result:
  assumes "lane_done fp mx k cx cy" "k \<le> unat mx"
  shows "mx - lane_iterations fp mx k cx cy = of_nat (scalar_member fp mx cx cy)"
proof -
  have "escape_time fp cx cy k (cx, cy) = escape_time fp cx cy (unat mx) (cx, cy)"
    using assms escape_time_frozen [of fp k cx cy "unat mx"] by (auto simp: lane_done_def)
  then show ?thesis by (simp add: lane_iterations_def scalar_member_def)
qed

lemma scalar_member_unat:
  "unat (of_nat (scalar_member fp mx cx cy) :: 32 word) = scalar_member fp mx cx cy"
  unfolding scalar_member_def by (rule escape_time_word [where mx = mx]) simp

lemma scalar_member_le: "(of_nat (scalar_member fp mx cx cy) :: 32 word) \<le> mx"
proof -
  have "scalar_member fp mx cx cy \<le> unat mx"
    unfolding scalar_member_def by (rule escape_time_le)
  then show ?thesis by (simp add: word_le_nat_alt scalar_member_unat)
qed

section \<open>The four lanes together\<close>

lemma member4_init_after: "member4_init fp mx cx4 cy4 = after_passes fp mx cx4 cy4 0"
  by (cases cx4; cases cy4)
     (simp add: member4_init_def after_passes_def Let_def MAX_ITERATIONS_4_def mm_set1_epi32_def
       mm_set1_ps_def mm_mul_ps_def mm_add_ps_def mm_cmplt_ps_def DIST_LIMIT_4_def
       lane_iterations_0 lane_alive_0 escaped_def lane_orbit_def)

lemma member4_body_after:
  "member4_body fp cx4 cy4 (after_passes fp mx cx4 cy4 k) = after_passes fp mx cx4 cy4 (Suc k)"
  by (cases cx4; cases cy4)
     (simp add: member4_body_def after_passes_def Let_def mm_set1_ps_def
       mm_mul_ps_def mm_add_ps_def mm_sub_ps_def mm_cmplt_ps_def mm_and_si128_def
       mm_add_epi32_def DIST_LIMIT_4_def lane_iterations_Suc lane_mask_and
       lane_alive_Suc escaped_def lane_orbit_Suc orbit_step_def conj_commute)

lemma funpow_body_after:
  "(member4_body fp cx4 cy4 ^^ k) (member4_init fp mx cx4 cy4) = after_passes fp mx cx4 cy4 k"
  by (induction k) (simp_all add: member4_init_after member4_body_after)

lemma mask_after_passes:
  assumes "k \<le> unat mx"
  shows "mask_var (after_passes fp mx cx4 cy4 k) = 0xFFFF
         \<longleftrightarrow> all_lanes2 (lane_done fp mx k) cx4 cy4"
  by (cases cx4; cases cy4)
     (simp add: after_passes_def Let_def movemask_cmpeq mm_and_si128_def mm_setzero_si128_def
        lane_exit_test [OF assms])

lemma after_passes_range:
  assumes "k \<le> unat mx"
  shows "all_lanes (\<lambda>w. w \<le> mx) (iterations4 (after_passes fp mx cx4 cy4 k))"
  by (cases cx4; cases cy4)
     (simp add: after_passes_def Let_def lane_iterations_range [OF assms])

lemma lanes_result:
  assumes "all_lanes2 (lane_done fp mx k) cx4 cy4" "k \<le> unat mx"
  shows "mm_sub_epi32 (MAX_ITERATIONS_4 mx) (iterations4 (after_passes fp mx cx4 cy4 k))
       = lanewise2 (\<lambda>cx cy. of_nat (scalar_member fp mx cx cy)) cx4 cy4"
  using assms
  by (cases cx4; cases cy4)
     (simp add: after_passes_def Let_def mm_sub_epi32_def MAX_ITERATIONS_4_def
        mm_set1_epi32_def lane_result)

section \<open>The loop\<close>

text \<open>A loop whose exit test first holds after \<open>K\<close> passes returns the state after
  \<open>K\<close> passes.\<close>

lemma member4_loop_funpow:
  "mask_var ((member4_body fp cx4 cy4 ^^ K) s) = 0xFFFF \<Longrightarrow>
   (\<And>k. k < K \<Longrightarrow> mask_var ((member4_body fp cx4 cy4 ^^ k) s) \<noteq> 0xFFFF) \<Longrightarrow>
   member4_loop fp cx4 cy4 s = Some ((member4_body fp cx4 cy4 ^^ K) s)"
proof (induction K arbitrary: s)
  case 0
  then show ?case by (subst member4_loop.simps) simp
next
  case (Suc K)
  have "mask_var s \<noteq> 0xFFFF" using Suc.prems(2) [of 0] by simp
  moreover have "member4_loop fp cx4 cy4 (member4_body fp cx4 cy4 s)
      = Some ((member4_body fp cx4 cy4 ^^ K) (member4_body fp cx4 cy4 s))"
  proof (rule Suc.IH)
    show "mask_var ((member4_body fp cx4 cy4 ^^ K) (member4_body fp cx4 cy4 s)) = 0xFFFF"
      using Suc.prems(1) by (simp add: funpow_swap1)
    show "mask_var ((member4_body fp cx4 cy4 ^^ k) (member4_body fp cx4 cy4 s)) \<noteq> 0xFFFF"
      if "k < K" for k
      using Suc.prems(2) [of "Suc k"] that by (simp add: funpow_swap1)
  qed
  ultimately show ?case
    by (subst member4_loop.simps) (simp add: funpow_swap1)
qed

text \<open>The pass at which member4's loop exits: the first at which every lane is done.
  There is one, since at pass \<open>unat mx\<close> every lane is.\<close>

lemma member4_loop_exit:
  "\<exists>K \<le> unat mx. all_lanes2 (lane_done fp mx K) cx4 cy4 \<and>
     member4_loop fp cx4 cy4 (member4_init fp mx cx4 cy4) = Some (after_passes fp mx cx4 cy4 K)"
proof -
  define K where "K = (LEAST k. all_lanes2 (lane_done fp mx k) cx4 cy4)"
  have cap: "all_lanes2 (lane_done fp mx (unat mx)) cx4 cy4"
    by (rule all_lanes2_triv) (simp add: lane_done_def)
  have fin: "all_lanes2 (lane_done fp mx K) cx4 cy4"
    unfolding K_def using cap by (rule LeastI)
  have le: "K \<le> unat mx"
    unfolding K_def using cap by (rule Least_le)
  have least: "\<not> all_lanes2 (lane_done fp mx k) cx4 cy4" if "k < K" for k
    using that unfolding K_def by (rule not_less_Least)
  have "member4_loop fp cx4 cy4 (member4_init fp mx cx4 cy4)
      = Some ((member4_body fp cx4 cy4 ^^ K) (member4_init fp mx cx4 cy4))"
  proof (rule member4_loop_funpow)
    show "mask_var ((member4_body fp cx4 cy4 ^^ K) (member4_init fp mx cx4 cy4)) = 0xFFFF"
      by (simp add: funpow_body_after mask_after_passes [OF le] fin)
    show "mask_var ((member4_body fp cx4 cy4 ^^ k) (member4_init fp mx cx4 cy4)) \<noteq> 0xFFFF"
      if "k < K" for k
    proof -
      have "k \<le> unat mx" using that le by linarith
      then show ?thesis
        by (simp add: funpow_body_after mask_after_passes least [OF that])
    qed
  qed
  then show ?thesis using fin le by (auto simp add: funpow_body_after)
qed

text \<open>member4 returns, and what it returns is the scalar count of each lane.\<close>

lemma member4_lanewise:
  "member4 fp mx cx4 cy4 = Some (lanewise2 (\<lambda>cx cy. of_nat (scalar_member fp mx cx cy)) cx4 cy4)"
proof -
  obtain K where "K \<le> unat mx" "all_lanes2 (lane_done fp mx K) cx4 cy4"
    "member4_loop fp cx4 cy4 (member4_init fp mx cx4 cy4) = Some (after_passes fp mx cx4 cy4 K)"
    using member4_loop_exit [of mx fp cx4 cy4] by blast
  then show ?thesis by (simp add: member4_def lanes_result)
qed

text \<open>Every state the loop passes through is the closed form of some pass up to the cap.\<close>

lemma member4_run_after:
  assumes "member4_run fp cx4 cy4 (member4_init fp mx cx4 cy4) s"
  shows "\<exists>k \<le> unat mx. s = after_passes fp mx cx4 cy4 k"
  using assms
proof (induction rule: member4_run.induct)
  case run_start
  show ?case by (rule exI [of _ 0]) (simp add: member4_init_after)
next
  case (run_pass t)
  then obtain k where k: "k \<le> unat mx" "t = after_passes fp mx cx4 cy4 k" by blast
  have "\<not> all_lanes2 (lane_done fp mx k) cx4 cy4"
    using run_pass.hyps(2) k by (simp add: mask_after_passes)
  moreover have "all_lanes2 (lane_done fp mx (unat mx)) cx4 cy4"
    by (rule all_lanes2_triv) (simp add: lane_done_def)
  ultimately have "k \<noteq> unat mx" by metis
  then have "Suc k \<le> unat mx" using k(1) by linarith
  then show ?case using k(2) member4_body_after [of fp cx4 cy4 mx k] by metis
qed

lemma count_range_sint:
  fixes w :: "32 word"
  assumes "w \<le> MAX_ITS"
  shows "0 \<le> sint w \<and> sint w \<le> sint MAX_ITS"
proof -
  have hi: "uint w \<le> 500" using assms by (simp add: MAX_ITS_def word_le_def)
  have "(- 2147483648 :: int) \<le> 0" by simp
  also have "0 \<le> uint w" by simp
  finally have lo: "- 2147483648 \<le> uint w" .
  have "sint w = uint w"
    using hi lo by (simp add: sint_uint signed_take_bit_int_eq_self_iff)
  then show ?thesis using hi by (simp add: MAX_ITS_def)
qed

section \<open>member4 and the scalar recurrence\<close>

text \<open>
  C1. For every batch of four points, member4 returns, and the count in each lane, read
  as a number, is the count of the scalar escape-time recurrence run on that lane's point
  alone: start at \<open>z\<^sub>0 = c\<close>, stop at the first point with \<open>x\<^sup>2 + y\<^sup>2\<close> not below 4.0
  or after \<open>mx\<close> steps, count the steps taken. This holds for every arithmetic unit and
  every cap \<open>mx\<close>, so for the program's \<open>MAX_ITS\<close>.
\<close>

theorem member4_equals_scalar:
  "map_option (lanewise unat) (member4 fp mx cx4 cy4)
    = Some (lanewise2 (scalar_member fp mx) cx4 cy4)"
  by (cases cx4; cases cy4) (simp add: member4_lanewise scalar_member_unat)

text \<open>
  C6. In every state that the loop of member4 passes through, the counter of every lane
  is between 0 and \<open>MAX_ITS\<close> as a signed integer, so no counter is ever decremented
  below zero; and member4 returns counts between 0 and \<open>MAX_ITS\<close>.
\<close>

theorem member4_counts_in_range:
  assumes "member4_run fp cx4 cy4 (member4_init fp MAX_ITS cx4 cy4) s"
  shows "all_lanes (\<lambda>w. 0 \<le> sint w \<and> sint w \<le> sint MAX_ITS) (iterations4 s)
       \<and> (\<exists>r. member4 fp MAX_ITS cx4 cy4 = Some r
              \<and> all_lanes (\<lambda>k. 0 \<le> sint k \<and> sint k \<le> sint MAX_ITS) r)"
proof
  obtain k where "k \<le> unat MAX_ITS" "s = after_passes fp MAX_ITS cx4 cy4 k"
    using member4_run_after [OF assms] by blast
  then have "all_lanes (\<lambda>w. w \<le> MAX_ITS) (iterations4 s)"
    by (simp add: after_passes_range)
  then show "all_lanes (\<lambda>w. 0 \<le> sint w \<and> sint w \<le> sint MAX_ITS) (iterations4 s)"
    by (rule all_lanes_mono) (rule count_range_sint)
next
  have "0 \<le> sint (of_nat (scalar_member fp MAX_ITS cx cy) :: 32 word)
      \<and> sint (of_nat (scalar_member fp MAX_ITS cx cy) :: 32 word) \<le> sint MAX_ITS" for cx cy
    by (rule count_range_sint) (rule scalar_member_le)
  then show "\<exists>r. member4 fp MAX_ITS cx4 cy4 = Some r
              \<and> all_lanes (\<lambda>k. 0 \<le> sint k \<and> sint k \<le> sint MAX_ITS) r"
    by (cases cx4; cases cy4) (simp add: member4_lanewise)
qed

text \<open>
  C7. The loop of member4 exits for every batch: after some number \<open>n\<close> of passes, at
  most the cap, the loop returns the state of pass \<open>n\<close>, in which every lane has either
  escaped (its \<open>not_escape4\<close> lane is 0) or used up its budget (its counter is 0); and
  member4 returns a result. The four lanes leave the loop together.
\<close>

theorem member4_loop_terminates:
  "\<exists>n. n \<le> unat mx
     \<and> member4_loop fp cx4 cy4 (member4_init fp mx cx4 cy4)
         = Some ((member4_body fp cx4 cy4 ^^ n) (member4_init fp mx cx4 cy4))
     \<and> all_lanes2 (\<lambda>ne its. ne = 0 \<or> its = 0)
         (not_escape4 ((member4_body fp cx4 cy4 ^^ n) (member4_init fp mx cx4 cy4)))
         (iterations4 ((member4_body fp cx4 cy4 ^^ n) (member4_init fp mx cx4 cy4)))
     \<and> member4 fp mx cx4 cy4 \<noteq> None"
proof -
  obtain K where K: "K \<le> unat mx" "all_lanes2 (lane_done fp mx K) cx4 cy4"
    "member4_loop fp cx4 cy4 (member4_init fp mx cx4 cy4) = Some (after_passes fp mx cx4 cy4 K)"
    using member4_loop_exit [of mx fp cx4 cy4] by blast
  have "all_lanes2 (\<lambda>ne its. ne = 0 \<or> its = 0)
          (not_escape4 (after_passes fp mx cx4 cy4 K)) (iterations4 (after_passes fp mx cx4 cy4 K))"
    using K(2) lane_done_state [OF _ K(1), of fp]
    by (cases cx4; cases cy4) (simp add: after_passes_def Let_def)
  then show ?thesis
    using K(1) K(3) by (intro exI [of _ K]) (simp add: funpow_body_after member4_lanewise)
qed

text \<open>A lane whose point has escaped at the start returns 0, whatever the other lanes
  hold.\<close>

lemma member4_lane_immediate_escape:
  assumes "escaped fp (lane j cx4, lane j cy4)"
  shows "\<exists>r. member4 fp mx cx4 cy4 = Some r \<and> lane j r = 0"
  using assms
  by (simp add: member4_lanewise lane_lanewise2 scalar_member_def escape_time_escaped)

text \<open>
  C9. For every batch in which every lane's point has \<open>cx\<^sup>2 + cy\<^sup>2\<close> not below 4.0 at
  the start, member4 returns the count 0 in every lane.
\<close>

theorem member4_immediate_escape:
  assumes "all_lanes2 (\<lambda>cx cy. escaped fp (cx, cy)) cx4 cy4"
  shows "member4 fp mx cx4 cy4 = Some (mm_set1_epi32 0)"
  using assms
  by (cases cx4; cases cy4)
     (simp add: member4_lanewise scalar_member_def escape_time_escaped mm_set1_epi32_def)

section \<open>Points of the set, in single precision\<close>

text \<open>The orbit of \<open>c = 0\<close> stays at 0. The orbit of \<open>c = -1\<close> (the bits \<open>0xBF800000\<close>)
  alternates between \<open>-1\<close> and 0, and both are inside the limit 4.0. 2.0 is
  \<open>0x40000000\<close>.\<close>

lemma ieee_zero_orbit:
  "\<not> escaped ieee_single (0, 0)"
  "orbit_step ieee_single 0 0 (0, 0) = (0, 0)"
  by code_simp+

lemma ieee_minus_one_orbit:
  "\<not> escaped ieee_single (0xBF800000, 0)"
  "orbit_step ieee_single 0xBF800000 0 (0xBF800000, 0) = (0, 0)"
  "orbit_step ieee_single 0xBF800000 0 (0, 0) = (0xBF800000, 0)"
  by code_simp+

lemma ieee_two_escaped: "escaped ieee_single (0x40000000, 0)"
  by code_simp

lemma scalar_member_zero: "scalar_member ieee_single mx 0 0 = unat mx"
  using escape_time_cycle2 [of ieee_single "(0, 0)" "(0, 0)" 0 0 "unat mx"] ieee_zero_orbit
  by (simp add: scalar_member_def)

lemma scalar_member_minus_one: "scalar_member ieee_single mx 0xBF800000 0 = unat mx"
  using escape_time_cycle2 [of ieee_single "(0xBF800000, 0)" "(0, 0)" "0xBF800000" 0 "unat mx"]
    ieee_zero_orbit ieee_minus_one_orbit
  by (simp add: scalar_member_def)

lemma scalar_member_two: "scalar_member ieee_single mx 0x40000000 0 = 0"
  using ieee_two_escaped by (simp add: scalar_member_def escape_time_escaped)

text \<open>
  C10. A lane whose point is \<open>c = 0 + 0i\<close> or \<open>c = -1 + 0i\<close> returns the cap, for every
  cap \<open>mx\<close> and whatever the other three lanes hold.
\<close>

theorem member4_points_of_the_set:
  assumes "j < 4"
    and "(lane j cx4 = 0 \<or> lane j cx4 = 0xBF800000) \<and> lane j cy4 = 0"
  shows "\<exists>r. member4 ieee_single mx cx4 cy4 = Some r \<and> lane j r = mx"
  using assms(2)
  by (auto simp add: member4_lanewise lane_lanewise2 scalar_member_zero scalar_member_minus_one)

section \<open>The colour index\<close>

lemma color_index4_lanes: "color_index4 mx its4 = lanewise (lane_color_index mx) its4"
  by (cases its4)
     (simp add: color_index4_def Let_def mm_cmpeq_epi32_def MAX_ITERATIONS_4_def
        mm_set1_epi32_def mm_xor_si128_def all_ones_mask4_def mm_and_si128_def mod_mask4_def
        mm_add_epi32_def increment4_def lane_mask_def lane_color_index_def all_ones_word)

lemma and_3F_unat: "unat ((k :: 32 word) AND 0x3F) = unat k mod 64"
proof -
  have "(0x3F :: 32 word) = Bit_Operations.mask 6" by (simp add: mask_eq_exp_minus_1)
  then have "k AND 0x3F = take_bit 6 k" by (simp only: take_bit_eq_mask)
  then have "unat (k AND 0x3F) = take_bit 6 (unat k)" by (simp only: unsigned_take_bit_eq)
  then show ?thesis by (simp only: take_bit_eq_mod) simp
qed

lemma lane_color_index_unat:
  "unat (lane_color_index mx k) = (if k = mx then 0 else unat k mod 64 + 1)"
proof -
  have "unat ((k AND 0x3F) + 1) = unat k mod 64 + 1"
  proof -
    have "unat k mod 64 < 64" by simp
    then have "unat (k AND 0x3F) + unat (1 :: 32 word) < 2 ^ LENGTH(32)"
      by (simp add: and_3F_unat)
    then have "unat ((k AND 0x3F) + 1) = unat (k AND 0x3F) + unat (1 :: 32 word)"
      by (rule unat_add_lem [THEN iffD1])
    then show ?thesis by (simp only: and_3F_unat unat_1)
  qed
  then show ?thesis by (simp add: lane_color_index_def)
qed

lemma lane_color_index_le: "lane_color_index mx k \<le> 64"
proof -
  have "unat k mod 64 < 64" by simp
  then have "unat k mod 64 \<le> 63" by linarith
  then have "unat (lane_color_index mx k) \<le> 64"
    by (simp add: lane_color_index_unat)
  then show ?thesis by (simp add: word_le_nat_alt)
qed

lemma small_sint:
  fixes w :: "32 word"
  assumes "w \<le> 64"
  shows "sint w = int (unat w)"
proof -
  have "(- 2147483648 :: int) \<le> 0" by simp
  also have "0 \<le> uint w" by simp
  finally have lo: "- 2147483648 \<le> uint w" .
  have hi: "uint w \<le> 64" using assms by (simp add: word_le_def)
  have "sint w = uint w"
    using hi lo by (simp add: sint_uint signed_take_bit_int_eq_self_iff)
  then show ?thesis by simp
qed

lemma lane_color_index_sint:
  "0 \<le> sint (lane_color_index mx k) \<and> sint (lane_color_index mx k) \<le> 64
   \<and> (k = mx \<or> 1 \<le> sint (lane_color_index mx k))"
proof -
  have "unat k mod 64 < 64" by simp
  then have "unat k mod 64 \<le> 63" by linarith
  then show ?thesis
    using small_sint [OF lane_color_index_le [of mx k]]
    by (simp add: lane_color_index_unat)
qed

text \<open>
  C2. The colour index that mandelbrot() computes from an iteration count \<open>k\<close> is 0
  when \<open>k = MAX_ITS\<close> and \<open>(k mod 64) + 1\<close> otherwise, in each of the four lanes.
\<close>

theorem color_index_mapping:
  "lanewise unat (color_index4 MAX_ITS its4)
     = lanewise (\<lambda>k. if k = MAX_ITS then 0 else unat k mod 64 + 1) its4"
  by (simp add: color_index4_lanes lanewise_lanewise lane_color_index_unat)

text \<open>
  C3, as amended. The colour index computed from any iteration count lies in [0, 64],
  and in [1, 64] when the count is not \<open>MAX_ITS\<close>.
\<close>

theorem color_index_range:
  "all_lanes2 (\<lambda>k i. 0 \<le> sint i \<and> sint i \<le> 64 \<and> (k = MAX_ITS \<or> 1 \<le> sint i))
     its4 (color_index4 MAX_ITS its4)"
  by (simp add: color_index4_lanes all_lanes2_lanewise all_lanes_triv lane_color_index_sint)

section \<open>The palette\<close>

lemma length_pal: "length pal = 195"
  by (simp add: pal_def)

text \<open>The entries 41 to 64 of the palette are copies of the entries 1 to 24.\<close>

lemma pal_replicated: "take 72 (drop 123 pal) = take 72 (drop 3 pal)"
  by (simp add: pal_def)

lemma pixel_rgb_64: "pixel_rgb 64 = Some (92, 21, 4)"
  by code_simp

lemma lane_lookup_in_bounds:
  "0 \<le> sint (lane_color_index mx k) * 3
   \<and> sint (lane_color_index mx k) * 3 + 2 < int (length pal)"
  using lane_color_index_sint [of mx k] by (simp add: length_pal)

lemma lane_pixel_rgb: "pixel_rgb (lane_color_index mx k) \<noteq> None"
  using lane_lookup_in_bounds [of mx k] by (simp add: pixel_rgb_def Let_def)

text \<open>The colour of a count below the cap: position \<open>(count mod 64) mod PAL_SIZE\<close>
  of the authored ramp.\<close>

lemma palette_entries:
  "list_all (\<lambda>i. pixel_rgb (of_nat i) = Some (authored_ramp ((i - 1) mod PAL_SIZE))) [1..<65]"
  by code_simp

lemma lane_color_index_of_nat:
  "k \<noteq> mx \<Longrightarrow> lane_color_index mx k = of_nat (unat k mod 64 + 1)"
proof -
  assume "k \<noteq> mx"
  then have "unat (lane_color_index mx k) = unat k mod 64 + 1"
    by (simp add: lane_color_index_unat)
  then have "of_nat (unat (lane_color_index mx k)) = (of_nat (unat k mod 64 + 1) :: 32 word)"
    by (simp only:)
  then show ?thesis by simp
qed

lemma color_of_count:
  assumes "k \<noteq> mx"
  shows "pixel_rgb (lane_color_index mx k) = Some (authored_ramp ((unat k mod 64) mod PAL_SIZE))"
proof -
  have "unat k mod 64 + 1 \<in> set [1..<65]" by simp
  then have "pixel_rgb (of_nat (unat k mod 64 + 1))
      = Some (authored_ramp ((unat k mod 64 + 1 - 1) mod PAL_SIZE))"
    using palette_entries unfolding list_all_iff by blast
  then show ?thesis using assms by (simp add: lane_color_index_of_nat)
qed

text \<open>
  C5. The palette array holds 65 RGB triples, the index 64 reads the last of them, and
  for every colour index that mandelbrot() computes, from any iteration counts, the three
  reads at \<open>index\<close>, \<open>index + 1\<close> and \<open>index + 2\<close> are inside the array.
\<close>

theorem palette_reads_in_bounds:
  "length pal = 3 * 65
   \<and> pixel_rgb 64 = Some (92, 21, 4)
   \<and> all_lanes (\<lambda>i. 0 \<le> sint i * 3 \<and> sint i * 3 + 2 < int (length pal) \<and> pixel_rgb i \<noteq> None)
       (color_index4 mx its4)"
proof -
  have lanes: "0 \<le> sint (lane_color_index mx k) * 3
      \<and> sint (lane_color_index mx k) * 3 + 2 < int (length pal)
      \<and> pixel_rgb (lane_color_index mx k) \<noteq> None" for k
    using lane_lookup_in_bounds [of mx k] lane_pixel_rgb [of mx k] by blast
  have "all_lanes (\<lambda>i. 0 \<le> sint i * 3 \<and> sint i * 3 + 2 < int (length pal) \<and> pixel_rgb i \<noteq> None)
          (color_index4 mx its4)"
    unfolding color_index4_lanes all_lanes_lanewise by (rule all_lanes_triv) (rule lanes)
  moreover have "length pal = 3 * 65" by (simp add: length_pal)
  ultimately show ?thesis using pixel_rgb_64 by blast
qed

section \<open>The zoom\<close>

lemma zoom_step_zooming:
  assumes "depth w < MAX_DEPTH"
  shows "zoom_step fp zm w =
    \<lparr>delta_x4 = mm_mul_ps fp (delta_x4 w) (mm_set1_ps zm),
     x_offset4 = mm_mul_ps fp (x_offset4 w) (mm_set1_ps zm),
     delta_y = fmul fp (delta_y w) zm,
     y_offset = fmul fp (y_offset w) zm,
     depth = depth w + 1\<rparr>"
  using assms by (simp add: zoom_step_def)

lemma zoom_depth:
  assumes "depth w = 0"
  shows "depth ((zoom_step fp zm ^^ n) w) = min (int n) MAX_DEPTH"
  by (induction n) (simp_all add: assms zoom_step_def MAX_DEPTH_def)

text \<open>From the frame at which the depth reaches \<open>MAX_DEPTH\<close> on, the window stays as
  it is.\<close>

lemma zoom_steady:
  assumes "depth w = 0" "150 \<le> n"
  shows "(zoom_step fp zm ^^ n) w = (zoom_step fp zm ^^ 150) w"
  using assms(2)
proof (induction n rule: dec_induct)
  case base
  show ?case by simp
next
  case (step n)
  have "depth ((zoom_step fp zm ^^ n) w) = MAX_DEPTH"
    using step.hyps(1) by (simp add: zoom_depth [OF assms(1)] MAX_DEPTH_def)
  then have "zoom_step fp zm ((zoom_step fp zm ^^ n) w) = (zoom_step fp zm ^^ n) w"
    by (simp add: zoom_step_def)
  then show ?case using step.IH by simp
qed


section \<open>Rounding in the single-precision unit\<close>

text \<open>The fields of a float, read from the number \<open>uint w\<close> of its bits.\<close>

lemma f32_sign_bit: "bit (w :: float32) 31 \<longleftrightarrow> 2 ^ 31 \<le> uint w"
proof -
  have lt: "uint w < 2 ^ 32" using uint_bounded [of w] by simp
  have ge: "0 \<le> uint w" by simp
  have "bit w 31 \<longleftrightarrow> bit (uint w) 31"
    by (simp add: bit_uint_iff)
  also have "\<dots> \<longleftrightarrow> odd (uint w div 2 ^ 31)"
    by (simp only: bit_iff_odd)
  also have "\<dots> \<longleftrightarrow> 2 ^ 31 \<le> uint w"
  proof (cases "2 ^ 31 \<le> uint w")
    case True
    then have "uint w div 2 ^ 31 = 1" using lt by simp
    then show ?thesis using True by simp
  next
    case False
    then have "uint w div 2 ^ 31 = 0" using ge by simp
    then show ?thesis using False by simp
  qed
  finally show ?thesis .
qed

lemma f32_exp_field: "uint (drop_bit 23 (w :: float32) AND 0xFF) = (uint w div 2 ^ 23) mod 256"
proof -
  have "(0xFF :: 32 word) = Bit_Operations.mask 8" by (simp add: mask_eq_exp_minus_1)
  then have "drop_bit 23 w AND 0xFF = take_bit 8 (drop_bit 23 w)"
    by (simp only: take_bit_eq_mask)
  then have "uint (drop_bit 23 w AND 0xFF) = take_bit 8 (drop_bit 23 (uint w))"
    by (simp only: unsigned_take_bit_eq unsigned_drop_bit_eq bintr_uint [OF order_refl])
  then show ?thesis by (simp only: take_bit_eq_mod drop_bit_eq_div) simp
qed

lemma f32_frac_field: "uint ((w :: float32) AND 0x7FFFFF) = uint w mod 2 ^ 23"
proof -
  have "(0x7FFFFF :: 32 word) = Bit_Operations.mask 23" by (simp add: mask_eq_exp_minus_1)
  then have "w AND 0x7FFFFF = take_bit 23 w"
    by (simp only: take_bit_eq_mask)
  then have "uint (w AND 0x7FFFFF) = take_bit 23 (uint w)"
    by (simp only: unsigned_take_bit_eq)
  then show ?thesis by (simp only: take_bit_eq_mod)
qed

lemma f32_decode_uint:
  "f32_decode w =
    (if (uint w div 2 ^ 23) mod 256 = 255
     then (if uint w mod 2 ^ 23 = 0 then Infinity (2 ^ 31 \<le> uint w) else NaN)
     else if (uint w div 2 ^ 23) mod 256 = 0 then Finite (2 ^ 31 \<le> uint w) (uint w mod 2 ^ 23) (- 149)
     else Finite (2 ^ 31 \<le> uint w) (2 ^ 23 + uint w mod 2 ^ 23) ((uint w div 2 ^ 23) mod 256 - 150))"
  unfolding f32_decode_def Let_def f32_sign_bit f32_exp_field f32_frac_field by simp

text \<open>The significand of a finite float has at most 24 bits.\<close>

lemma f32_decode_finite:
  assumes "f32_decode w = Finite s m e"
  shows "0 \<le> m \<and> m < 2 ^ 24 \<and> - 149 \<le> e \<and> e \<le> 104"
proof -
  have f: "0 \<le> uint w mod 2 ^ 23 \<and> uint w mod 2 ^ 23 < 2 ^ 23" by simp
  have x: "0 \<le> (uint w div 2 ^ 23) mod 256 \<and> (uint w div 2 ^ 23) mod 256 < 256" by simp
  show ?thesis
    using assms f x unfolding f32_decode_uint
    by (auto split: if_splits)
qed

text \<open>The bits that \<open>f32_round\<close> puts together, as a number.\<close>

lemma uint_signbit_or:
  assumes "0 \<le> mag" "mag < 2 ^ 31"
  shows "uint (f32_signbit s OR word_of_int mag) = (if s then 2 ^ 31 else 0) + mag"
proof -
  have u: "uint (word_of_int mag :: 32 word) = mag"
    using assms by (simp add: uint_word_of_int take_bit_int_eq_self flip: take_bit_eq_mod)
  show ?thesis
  proof (cases s)
    case False
    then show ?thesis using u by (simp add: f32_signbit_def)
  next
    case True
    have "mag div 2 ^ 31 = 0" using assms by simp
    then have "\<not> bit mag 31" by (simp only: bit_iff_odd) simp
    then have "mag AND 2 ^ 31 = 0"
      using and_exp_eq_0_iff_not_bit [of mag 31] by blast
    then have "(2 ^ 31 AND mag) + (2 ^ 31 OR mag) = 2 ^ 31 + mag" "2 ^ 31 AND mag = 0"
      using plus_and_or [of "2 ^ 31" mag] by (simp_all add: and.commute)
    then have "(2 ^ 31 OR mag) = 2 ^ 31 + mag" by simp
    moreover have "uint ((0x80000000 :: 32 word) OR word_of_int mag) = 2 ^ 31 OR mag"
      using u by (simp add: uint_or)
    ultimately show ?thesis using True by (simp add: f32_signbit_def)
  qed
qed

lemma f32_decode_encode:
  assumes "0 \<le> mag" "mag < 0x7F800000"
  shows "f32_decode (f32_signbit s OR word_of_int mag) =
    (if mag < 2 ^ 23 then Finite s mag (- 149)
     else Finite s (2 ^ 23 + mag mod 2 ^ 23) (mag div 2 ^ 23 - 150))"
proof -
  have lt: "mag < 2 ^ 31" using assms(2) by simp
  have u: "uint (f32_signbit s OR word_of_int mag) = (if s then 2 ^ 31 else 0) + mag"
    by (rule uint_signbit_or [OF assms(1) lt])
  have d: "mag div 2 ^ 23 < 255" using assms by simp
  have d0: "0 \<le> mag div 2 ^ 23" using assms by simp
  have sg: "(2 ^ 31 \<le> (if s then 2 ^ 31 else 0) + mag) = s" using assms lt by simp
  have "(256 * 2 ^ 23 + mag) div 2 ^ 23 = 256 + mag div 2 ^ 23"
    by (rule div_mult_self3) simp
  then have ex: "(((if s then 2 ^ 31 else 0) + mag) div 2 ^ 23) mod 256 = mag div 2 ^ 23"
    using d d0 by (cases s) simp_all
  have "(256 * 2 ^ 23 + mag) mod 2 ^ 23 = mag mod 2 ^ 23"
    by (rule mod_mult_self3)
  then have fr: "((if s then 2 ^ 31 else 0) + mag) mod 2 ^ 23 = mag mod 2 ^ 23"
    by (cases s) simp_all
  have z: "mag div 2 ^ 23 = 0 \<longleftrightarrow> mag < 2 ^ 23"
    using assms(1) by (auto simp add: zdiv_eq_0_iff)
  show ?thesis
    unfolding f32_decode_uint u sg ex fr using d z assms(1) by auto
qed

text \<open>A positive number has \<open>bit_length\<close> bits.\<close>

lemma bit_length_bounds:
  "0 < m \<Longrightarrow> 0 < bit_length m \<and> 2 ^ (bit_length m - 1) \<le> m \<and> m < 2 ^ bit_length m"
proof (induction m rule: bit_length.induct)
  case (1 n)
  show ?case
  proof (cases "n div 2 = 0")
    case True
    then have "n = 1" using "1.prems" by linarith
    then show ?thesis
      by (simp add: bit_length.simps [of 1] bit_length.simps [of 0])
  next
    case False
    then have pos: "0 < n div 2" using "1.prems" by linarith
    have ih: "0 < bit_length (n div 2) \<and> 2 ^ (bit_length (n div 2) - 1) \<le> n div 2
        \<and> n div 2 < 2 ^ bit_length (n div 2)"
      using "1.IH" "1.prems" pos by simp
    have bl: "bit_length n = Suc (bit_length (n div 2))"
      using "1.prems" by (simp add: bit_length.simps [of n])
    obtain k where k: "bit_length (n div 2) = Suc k"
      using ih by (cases "bit_length (n div 2)") simp_all
    have lo: "2 * (n div 2) \<le> n" by linarith
    have hi: "n < 2 * (n div 2) + 2" by linarith
    have "2 ^ Suc k \<le> n" using ih k lo by simp
    moreover have "n < 2 ^ Suc (Suc k)" using ih k hi by simp
    ultimately show ?thesis using bl k by simp
  qed
qed

text \<open>Rounding to the nearest multiple of \<open>2 ^ sh\<close> moves a number by at most half of it.\<close>

lemma round_half_even_bounds:
  assumes "0 \<le> m" "0 < sh"
  shows "2 * \<bar>round_half_even m sh * 2 ^ sh - m\<bar> \<le> 2 ^ sh"
    and "m div 2 ^ sh \<le> round_half_even m sh"
    and "round_half_even m sh \<le> m div 2 ^ sh + 1"
proof -
  obtain t where t: "sh = Suc t" using assms(2) by (cases sh) simp_all
  define m0 where "m0 = m div 2 ^ sh"
  define r where "r = m mod 2 ^ sh"
  have m: "m = m0 * 2 ^ sh + r"
    unfolding m0_def r_def by (rule div_mult_mod_eq [symmetric])
  have r: "0 \<le> r" "r < 2 ^ sh" by (simp_all add: r_def)
  have half: "(2 :: int) ^ sh = 2 * 2 ^ t" "(2 :: int) ^ (sh - 1) = 2 ^ t" by (simp_all add: t)
  have R: "round_half_even m sh = (if 2 ^ t < r \<or> (r = 2 ^ t \<and> odd m0) then m0 + 1 else m0)"
    unfolding round_half_even_def Let_def m0_def r_def by (simp add: t)
  show "m div 2 ^ sh \<le> round_half_even m sh"
    unfolding R by (simp flip: m0_def)
  show "round_half_even m sh \<le> m div 2 ^ sh + 1"
    unfolding R by (simp flip: m0_def)
  show "2 * \<bar>round_half_even m sh * 2 ^ sh - m\<bar> \<le> 2 ^ sh"
  proof (cases "2 ^ t < r \<or> (r = 2 ^ t \<and> odd m0)")
    case True
    then have "round_half_even m sh * 2 ^ sh - m = 2 ^ sh - r"
      unfolding R by (simp add: m algebra_simps)
    then show ?thesis using True r half by auto
  next
    case False
    then have "round_half_even m sh * 2 ^ sh - m = - r"
      unfolding R by (simp add: m algebra_simps)
    then show ?thesis using False r half by auto
  qed
qed

lemma round_half_even_le:
  assumes "0 \<le> m" "0 < sh" "m \<le> K * 2 ^ sh"
  shows "round_half_even m sh \<le> K"
proof (cases "m div 2 ^ sh < K")
  case True
  then show ?thesis using round_half_even_bounds(3) [OF assms(1,2)] by linarith
next
  case False
  have "m div 2 ^ sh \<le> (K * 2 ^ sh) div 2 ^ sh"
    using assms(3) by (rule zdiv_mono1) simp
  then have "m div 2 ^ sh \<le> K" by simp
  then have eq: "m div 2 ^ sh = K" using False by linarith
  have "K * 2 ^ sh + m mod 2 ^ sh = m"
    using div_mult_mod_eq [of m "2 ^ sh"] unfolding eq .
  moreover have "0 \<le> m mod 2 ^ sh" by simp
  ultimately have "K * 2 ^ sh \<le> m" by linarith
  then have "m = K * 2 ^ sh" using assms(3) by linarith
  then have r0: "m mod 2 ^ sh = 0" by simp
  obtain t where t: "sh = Suc t" using assms(2) by (cases sh) simp_all
  have "(0 :: int) < 2 ^ (sh - 1)" by simp
  then show ?thesis
    using eq r0 by (simp add: round_half_even_def Let_def)
qed

text \<open>\<open>f32_round\<close> is the encoding of the significand \<open>f32_sig\<close> at the exponent \<open>f32_ulp\<close>.\<close>

lemma f32_round_sig:
  "m \<noteq> 0 \<Longrightarrow> f32_round s m e =
    (if 0x7F800000 \<le> (f32_ulp m e + 149) * 2 ^ 23 + f32_sig m e then f32_inf s
     else f32_signbit s OR word_of_int ((f32_ulp m e + 149) * 2 ^ 23 + f32_sig m e))"
  by (simp add: f32_round_def f32_sig_def Let_def)

lemma int_le_div:
  fixes a b c :: int
  assumes "0 < b" "c * b \<le> a"
  shows "c \<le> a div b"
proof -
  have "(c * b) div b \<le> a div b" using assms(2,1) by (rule zdiv_mono1)
  then show ?thesis using assms(1) by simp
qed

lemma int_div_less:
  fixes a b c :: int
  assumes "0 < b" "a < c * b"
  shows "a div b < c"
proof (rule ccontr)
  assume "\<not> a div b < c"
  then have "c \<le> a div b" by simp
  then have "c * b \<le> (a div b) * b" using assms(1) by simp
  moreover have "(a div b) * b + a mod b = a" by (rule div_mult_mod_eq)
  moreover have "0 \<le> a mod b" using assms(1) by simp
  ultimately show False using assms(2) by linarith
qed

lemma f32_ulp_cases:
  "- 149 \<le> f32_ulp m e" "e + int (bit_length m) - 24 \<le> f32_ulp m e"
  "f32_ulp m e = e + int (bit_length m) - 24 \<or> f32_ulp m e = - 149"
  by (auto simp add: f32_ulp_def max_def)

lemma f32_sig_bounds:
  assumes "0 < m"
  shows "0 \<le> f32_sig m e" and "f32_sig m e \<le> 2 ^ 24"
    and "- 149 < f32_ulp m e \<Longrightarrow> 2 ^ 23 \<le> f32_sig m e"
proof -
  define bl where "bl = bit_length m"
  define q where "q = f32_ulp m e"
  have bl: "0 < bl" "2 ^ (bl - 1) \<le> m" "m < 2 ^ bl"
    using bit_length_bounds [OF assms] by (simp_all add: bl_def)
  have q: "- 149 \<le> q" "e + int bl - 24 \<le> q" "q = e + int bl - 24 \<or> q = - 149"
    using f32_ulp_cases [where m = m and e = e] by (simp_all add: q_def bl_def)
  show "0 \<le> f32_sig m e"
  proof (cases "q \<le> e")
    case True
    then show ?thesis using assms by (simp add: f32_sig_def q_def)
  next
    case False
    have "0 \<le> m div 2 ^ nat (q - e)" using assms by (simp add: pos_imp_zdiv_nonneg_iff)
    then show ?thesis
      using False round_half_even_bounds(2) [of m "nat (q - e)"] assms
      by (simp add: f32_sig_def q_def)
  qed
  show "f32_sig m e \<le> 2 ^ 24"
  proof (cases "q \<le> e")
    case True
    define k where "k = nat (e - q)"
    have k: "bl + k \<le> 24" using q(2) True by (simp add: k_def)
    have "m * 2 ^ k < 2 ^ bl * 2 ^ k" using bl(3) by simp
    also have "\<dots> = 2 ^ (bl + k)" by (simp add: power_add)
    also have "\<dots> \<le> (2 :: int) ^ 24" using k by (rule power_increasing) simp
    finally show ?thesis using True by (simp add: f32_sig_def k_def flip: q_def)
  next
    case False
    define sh where "sh = nat (q - e)"
    have sh: "0 < sh" "bl \<le> sh + 24" using False q(2) by (simp_all add: sh_def)
    have "m < 2 ^ bl" by (rule bl(3))
    also have "\<dots> \<le> (2 :: int) ^ (sh + 24)" using sh(2) by (rule power_increasing) simp
    finally have "m < 2 ^ 24 * 2 ^ sh" by (simp add: power_add)
    then have "m div 2 ^ sh < 2 ^ 24"
      by (intro int_div_less) simp_all
    then show ?thesis
      using False round_half_even_bounds(3) [of m sh] assms sh(1)
      by (simp add: f32_sig_def sh_def flip: q_def)
  qed
  show "2 ^ 23 \<le> f32_sig m e" if "- 149 < f32_ulp m e"
  proof -
    have qe: "q = e + int bl - 24" using that q(3) by (simp add: q_def)
    show ?thesis
    proof (cases "q \<le> e")
      case True
      define k where "k = nat (e - q)"
      have k: "bl - 1 + k = 23" using qe True bl(1) by (simp add: k_def)
      have "(2 :: int) ^ (bl - 1) * 2 ^ k = 2 ^ (bl - 1 + k)" by (simp only: power_add)
      then have "(2 :: int) ^ 23 = 2 ^ (bl - 1) * 2 ^ k" by (simp only: k)
      also have "\<dots> \<le> m * 2 ^ k" using bl(2) by simp
      finally show ?thesis using True by (simp add: f32_sig_def k_def flip: q_def)
    next
      case False
      define sh where "sh = nat (q - e)"
      have sh: "0 < sh" "bl - 1 = sh + 23" using False qe by (simp_all add: sh_def)
      have "(2 :: int) ^ 23 * 2 ^ sh \<le> m" using bl(2) sh(2) by (simp add: power_add mult.commute)
      then have "2 ^ 23 \<le> m div 2 ^ sh"
        by (intro int_le_div) simp_all
      then show ?thesis
        using False round_half_even_bounds(2) [of m sh] assms sh(1)
        by (simp add: f32_sig_def sh_def flip: q_def)
    qed
  qed
qed

lemma f32_sig_top:
  assumes "0 < m" "m \<le> (2 ^ 24 - 1) * 2 ^ 24" "e \<le> 80"
  shows "f32_ulp m e \<le> 104" and "f32_ulp m e = 104 \<Longrightarrow> f32_sig m e \<le> 2 ^ 24 - 1"
proof -
  define bl where "bl = bit_length m"
  have bl: "0 < bl" "2 ^ (bl - 1) \<le> m" "m < 2 ^ bl"
    using bit_length_bounds [OF assms(1)] by (simp_all add: bl_def)
  have "(2 :: int) ^ (bl - 1) < 2 ^ 48" using bl(2) assms(2) by simp
  then have "bl - 1 < 48" by (rule power_less_imp_less_exp [rotated]) simp
  then have bl48: "bl \<le> 48" by simp
  have q: "f32_ulp m e = e + int bl - 24 \<or> f32_ulp m e = - 149"
    using f32_ulp_cases(3) [of m e] by (simp add: bl_def)
  show "f32_ulp m e \<le> 104" using q bl48 assms(3) by auto
  show "f32_sig m e \<le> 2 ^ 24 - 1" if "f32_ulp m e = 104"
  proof -
    have "e + int bl - 24 = 104" using q that by simp
    then have e: "e = 80" using bl48 assms(3) by simp
    have "round_half_even m 24 \<le> 2 ^ 24 - 1"
      using assms(1,2) by (intro round_half_even_le) simp_all
    then show ?thesis using that e by (simp add: f32_sig_def)
  qed
qed

text \<open>The error of one rounding: at most the number's \<open>1 / 2 ^ 24\<close>, or half of the
  smallest subnormal.\<close>

lemma f32_sig_error:
  assumes "0 < m"
  shows "\<bar>real_of_int (f32_sig m e) * 2 powi (f32_ulp m e) - real_of_int m * 2 powi e\<bar>
         \<le> real_of_int m * 2 powi e / 2 ^ 24 + 2 powi (- 150)"
proof -
  define bl where "bl = bit_length m"
  define q where "q = f32_ulp m e"
  define P :: real where "P = 2 powi e"
  have P: "0 < P" by (simp add: P_def)
  have bl: "0 < bl" "2 ^ (bl - 1) \<le> m" "m < 2 ^ bl"
    using bit_length_bounds [OF assms] by (simp_all add: bl_def)
  have q: "- 149 \<le> q" "e + int bl - 24 \<le> q" "q = e + int bl - 24 \<or> q = - 149"
    using f32_ulp_cases [where m = m and e = e] by (simp_all add: q_def bl_def)
  have rhs: "0 \<le> real_of_int m * P / 2 ^ 24 + 2 powi (- 150)"
    using assms P by (simp add: add_nonneg_nonneg)
  show ?thesis
  proof (cases "q \<le> e")
    case True
    define k where "k = nat (e - q)"
    have "e = q + int k" using True by (simp add: k_def)
    then have pw: "(2 :: real) ^ k * 2 powi q = 2 powi e"
      by (simp add: power_int_add)
    have sig: "f32_sig m e = m * 2 ^ k"
      using True by (simp add: f32_sig_def k_def q_def)
    have "real_of_int (f32_sig m e) * 2 powi q = real_of_int m * (2 ^ k * 2 powi q)"
      by (simp add: sig)
    also have "\<dots> = real_of_int m * 2 powi e"
      by (simp only: pw)
    finally have "real_of_int (f32_sig m e) * 2 powi q - real_of_int m * 2 powi e = 0"
      by simp
    then show ?thesis
      using rhs unfolding P_def q_def by simp
  next
    case False
    define sh where "sh = nat (q - e)"
    define R where "R = round_half_even m sh"
    have sh: "0 < sh" "q = e + int sh" using False by (simp_all add: sh_def)
    have Q: "(2 :: real) powi q = P * 2 ^ sh"
      unfolding sh(2) P_def by (simp add: power_int_add)
    have "2 * \<bar>R * 2 ^ sh - m\<bar> \<le> 2 ^ sh"
      unfolding R_def using assms sh(1) by (intro round_half_even_bounds(1)) simp_all
    then have "real_of_int (2 * \<bar>R * 2 ^ sh - m\<bar>) \<le> real_of_int (2 ^ sh)"
      by (simp only: of_int_le_iff)
    then have E1: "\<bar>real_of_int R * 2 ^ sh - real_of_int m\<bar> \<le> 2 ^ sh / 2"
      by simp
    have "real_of_int R * 2 powi q - real_of_int m * P = (real_of_int R * 2 ^ sh - real_of_int m) * P"
      unfolding Q by (simp add: algebra_simps)
    then have "\<bar>real_of_int R * 2 powi q - real_of_int m * P\<bar>
        = \<bar>real_of_int R * 2 ^ sh - real_of_int m\<bar> * P"
      using P by (simp add: abs_mult)
    also have "\<dots> \<le> 2 ^ sh / 2 * P"
      using E1 P by (simp add: mult_right_mono)
    finally have E2: "\<bar>real_of_int R * 2 powi q - real_of_int m * P\<bar> \<le> 2 ^ sh / 2 * P" .
    have "2 ^ sh / 2 * P \<le> real_of_int m * P / 2 ^ 24 + 2 powi (- 150)"
    proof (cases "q = - 149")
      case True
      then have "2 ^ sh / 2 * P = 2 powi (- 149) / 2" using Q by (simp add: mult.commute)
      also have "\<dots> = 2 powi (- 150)" by simp
      finally have "2 ^ sh / 2 * P = 2 powi (- 150)" .
      moreover have "0 \<le> real_of_int m * P / 2 ^ 24" using assms P by simp
      ultimately show ?thesis by linarith
    next
      case False
      then have "q = e + int bl - 24" using q(3) by simp
      then have "int sh + 24 = int bl" using sh(2) by simp
      then have "sh + 24 = Suc (bl - 1)" using bl(1) by linarith
      then have "(2 :: int) ^ (sh + 24) = 2 ^ Suc (bl - 1)" by (simp only:)
      then have "(2 :: int) ^ sh * 2 ^ 24 = 2 * 2 ^ (bl - 1)"
        by (simp only: power_add power_Suc)
      then have "(2 :: int) ^ sh * 2 ^ 24 \<le> 2 * m" using bl(2) by simp
      then have "real_of_int (2 ^ sh * 2 ^ 24) \<le> real_of_int (2 * m)"
        by (simp only: of_int_le_iff)
      then have "(2 :: real) ^ sh / 2 \<le> real_of_int m / 2 ^ 24"
        by (simp add: field_simps)
      then have "2 ^ sh / 2 * P \<le> real_of_int m / 2 ^ 24 * P"
        using P by (intro mult_right_mono) simp_all
      moreover have "real_of_int m / 2 ^ 24 * P = real_of_int m * P / 2 ^ 24" by simp
      moreover have "(0 :: real) \<le> 2 powi (- 150)" by simp
      ultimately show ?thesis by linarith
    qed
    then have "\<bar>real_of_int R * 2 powi q - real_of_int m * P\<bar>
        \<le> real_of_int m * P / 2 ^ 24 + 2 powi (- 150)"
      using E2 by linarith
    moreover have "f32_sig m e = R"
      using \<open>\<not> q \<le> e\<close> by (simp add: f32_sig_def R_def sh_def q_def)
    ultimately show ?thesis
      unfolding P_def q_def by simp
  qed
qed

text \<open>Below the overflow threshold, the result of \<open>f32_round\<close> decodes to the rounded number.\<close>

lemma f32_round_value:
  assumes "0 < m" "m \<le> (2 ^ 24 - 1) * 2 ^ 24" "e \<le> 80"
  shows "\<exists>n q. f32_decode (f32_round s m e) = Finite s n q
           \<and> real_of_int n * 2 powi q = real_of_int (f32_sig m e) * 2 powi (f32_ulp m e)"
proof -
  define q where "q = f32_ulp m e"
  define mr where "mr = f32_sig m e"
  define mag where "mag = (q + 149) * 2 ^ 23 + mr"
  have q: "- 149 \<le> q" "q \<le> 104"
    using f32_ulp_cases(1) [of m e] f32_sig_top(1) [OF assms] by (simp_all add: q_def)
  have mr: "0 \<le> mr" "mr \<le> 2 ^ 24"
    using f32_sig_bounds(1,2) [OF assms(1), of e] by (simp_all add: mr_def)
  have norm: "2 ^ 23 \<le> mr" if "- 149 < q"
    using f32_sig_bounds(3) [OF assms(1), of e] that by (simp add: mr_def q_def)
  have top: "mr \<le> 2 ^ 24 - 1" if "q = 104"
    using f32_sig_top(2) [OF assms] that by (simp add: mr_def q_def)
  have mag0: "0 \<le> mag" using q(1) mr(1) by (simp add: mag_def)
  have mag1: "mag < 0x7F800000"
  proof (cases "q = 104")
    case True
    then show ?thesis using top by (simp add: mag_def)
  next
    case False
    then have "q \<le> 103" using q(2) by simp
    then show ?thesis using mr(2) by (simp add: mag_def)
  qed
  have "f32_round s m e = f32_signbit s OR word_of_int mag"
    using assms(1) mag1 by (simp add: f32_round_sig mag_def q_def mr_def)
  then have dec: "f32_decode (f32_round s m e) =
      (if mag < 2 ^ 23 then Finite s mag (- 149)
       else Finite s (2 ^ 23 + mag mod 2 ^ 23) (mag div 2 ^ 23 - 150))"
    using f32_decode_encode [OF mag0 mag1, of s] by simp
  show ?thesis
  proof (cases "mag < 2 ^ 23")
    case True
    have "q = - 149"
    proof (rule ccontr)
      assume "q \<noteq> - 149"
      then have "1 \<le> q + 149" using q(1) by simp
      then have "2 ^ 23 \<le> mag" using mr(1) by (simp add: mag_def)
      then show False using True by simp
    qed
    then have "mag = mr" by (simp add: mag_def)
    then show ?thesis
      using dec True \<open>q = - 149\<close> by (simp add: q_def mr_def)
  next
    case False
    have big: "2 ^ 23 \<le> mr"
    proof (cases "- 149 < q")
      case True
      then show ?thesis by (rule norm)
    next
      case False
      then have "q = - 149" using q(1) by simp
      then show ?thesis using \<open>\<not> mag < 2 ^ 23\<close> by (simp add: mag_def)
    qed
    show ?thesis
    proof (cases "mr = 2 ^ 24")
      case True
      have m: "mag = (q + 151) * 2 ^ 23 + 0" using True by (simp add: mag_def algebra_simps)
      have d: "mag div 2 ^ 23 = q + 151" unfolding m by (subst div_mult_self3) simp_all
      have r: "mag mod 2 ^ 23 = 0" unfolding m by (subst mod_mult_self3) simp_all
      have "(2 :: real) powi (1 + q) = 2 powi q * 2" by (simp add: power_int_add)
      then have "real_of_int (2 ^ 23) * 2 powi (1 + q) = real_of_int mr * 2 powi q"
        using True by simp
      then show ?thesis
        using dec False d r by (simp add: q_def mr_def)
    next
      case False
      then have lt: "mr < 2 ^ 24" using mr(2) by simp
      define d where "d = mr - 2 ^ 23"
      have d: "0 \<le> d" "d < 2 ^ 23" using big lt by (simp_all add: d_def)
      have m: "mag = (q + 150) * 2 ^ 23 + d" by (simp add: mag_def d_def algebra_simps)
      have dv: "mag div 2 ^ 23 = q + 150"
        unfolding m using d by (subst div_mult_self3) simp_all
      have rm: "mag mod 2 ^ 23 = d"
        unfolding m using d by (subst mod_mult_self3) simp_all
      have "2 ^ 23 + d = mr" by (simp add: d_def)
      then show ?thesis
        using dec \<open>\<not> mag < 2 ^ 23\<close> dv rm by (simp add: q_def mr_def)
    qed
  qed
qed

text \<open>The two constants of the zoom, as numbers.\<close>

lemma zoom_multiplier_decode: "f32_decode zoom_multiplier = Finite False 15679640 (- 24)"
  by code_simp

lemma ZOOM_FACTOR_decode: "f32_decode ZOOM_FACTOR = Finite False 8975811 (- 23)"
  by code_simp

lemma f32_real_zoom_multiplier: "f32_real zoom_multiplier = 15679640 / 2 ^ 24"
  by (simp add: f32_real_def zoom_multiplier_decode)

lemma f32_real_ZOOM_FACTOR: "f32_real ZOOM_FACTOR = 8975811 / 2 ^ 23"
  by (simp add: f32_real_def ZOOM_FACTOR_decode)

lemma f32_signbit_decode: "f32_decode (f32_signbit s) = Finite s 0 (- 149)"
proof (cases s)
  case True
  have "f32_decode (f32_signbit True) = Finite True 0 (- 149)" by code_simp
  then show ?thesis using True by simp
next
  case False
  have "f32_decode (f32_signbit False) = Finite False 0 (- 149)" by code_simp
  then show ?thesis using False by simp
qed

text \<open>The product of a finite float and \<open>zoom_multiplier\<close>: one rounding of the exact product.\<close>

lemma f32_mul_zoom:
  assumes "f32_finite a"
  shows "f32_finite (f32_mul a zoom_multiplier)
    \<and> \<bar>f32_real (f32_mul a zoom_multiplier) - f32_real a * f32_real zoom_multiplier\<bar>
        \<le> \<bar>f32_real a * f32_real zoom_multiplier\<bar> / 2 ^ 24 + 2 powi (- 150)"
proof -
  obtain s m e where a: "f32_decode a = Finite s m e"
    using assms by (auto simp add: f32_finite_def split: f32_value.splits)
  have m: "0 \<le> m" "m < 2 ^ 24" and e: "e \<le> 104"
    using f32_decode_finite [OF a] by simp_all
  define M where "M = m * 15679640"
  define E where "E = e - 24"
  define sg :: real where "sg = (if s then - 1 else 1)"
  have sg: "\<bar>sg\<bar> = 1" by (simp add: sg_def)
  have mul: "f32_mul a zoom_multiplier = f32_round s M E"
    by (simp add: f32_mul_def a zoom_multiplier_decode M_def E_def)
  have "(2 :: real) powi e * 2 powi (- 24) = 2 powi E"
    unfolding E_def by (simp add: power_int_diff power_int_minus field_simps)
  then have "(real_of_int m * 2 powi e) * (15679640 * 2 powi (- 24)) = real_of_int M * 2 powi E"
    by (simp add: M_def algebra_simps)
  then have prod: "f32_real a * f32_real zoom_multiplier = sg * (real_of_int M * 2 powi E)"
    by (simp add: f32_real_def a zoom_multiplier_decode sg_def)
  show ?thesis
  proof (cases "m = 0")
    case True
    then have "f32_decode (f32_mul a zoom_multiplier) = Finite s 0 (- 149)"
      using mul by (simp add: M_def f32_round_def f32_signbit_decode)
    then show ?thesis
      using True by (simp add: f32_finite_def f32_real_def a)
  next
    case False
    then have M0: "0 < M" using m(1) by (simp add: M_def)
    have M1: "M \<le> (2 ^ 24 - 1) * 2 ^ 24" using m(2) by (simp add: M_def)
    have E1: "E \<le> 80" using e by (simp add: E_def)
    obtain n q where nq: "f32_decode (f32_round s M E) = Finite s n q"
      "real_of_int n * 2 powi q = real_of_int (f32_sig M E) * 2 powi (f32_ulp M E)"
      using f32_round_value [OF M0 M1 E1, of s] by blast
    have val: "f32_real (f32_mul a zoom_multiplier)
        = sg * (real_of_int (f32_sig M E) * 2 powi (f32_ulp M E))"
      using nq by (simp add: f32_real_def mul sg_def)
    have err: "\<bar>real_of_int (f32_sig M E) * 2 powi (f32_ulp M E) - real_of_int M * 2 powi E\<bar>
         \<le> real_of_int M * 2 powi E / 2 ^ 24 + 2 powi (- 150)"
      by (rule f32_sig_error [OF M0])
    have pos: "0 \<le> real_of_int M * 2 powi E" using M0 by simp
    have "f32_real (f32_mul a zoom_multiplier) - f32_real a * f32_real zoom_multiplier
        = sg * (real_of_int (f32_sig M E) * 2 powi (f32_ulp M E) - real_of_int M * 2 powi E)"
      unfolding val prod by (simp add: algebra_simps)
    then have "\<bar>f32_real (f32_mul a zoom_multiplier) - f32_real a * f32_real zoom_multiplier\<bar>
        = \<bar>real_of_int (f32_sig M E) * 2 powi (f32_ulp M E) - real_of_int M * 2 powi E\<bar>"
      using sg by (simp add: abs_mult)
    moreover have "\<bar>f32_real a * f32_real zoom_multiplier\<bar> = real_of_int M * 2 powi E"
      unfolding prod by (simp only: abs_mult [of sg] sg abs_of_nonneg [OF pos] mult_1)
    ultimately have "\<bar>f32_real (f32_mul a zoom_multiplier) - f32_real a * f32_real zoom_multiplier\<bar>
        \<le> \<bar>f32_real a * f32_real zoom_multiplier\<bar> / 2 ^ 24 + 2 powi (- 150)"
      using err by simp
    moreover have "f32_finite (f32_mul a zoom_multiplier)"
      using nq(1) by (simp add: f32_finite_def mul)
    ultimately show ?thesis by blast
  qed
qed

text \<open>The product with the rounded reciprocal is the quotient by \<open>ZOOM_FACTOR\<close>, within
  the tolerance.\<close>

lemma f32_mul_zoomed:
  assumes "f32_finite a"
  shows "zoomed a (f32_mul a zoom_multiplier)"
proof -
  define x where "x = f32_real a"
  define b where "b = f32_real (f32_mul a zoom_multiplier)"
  define z :: real where "z = 15679640 / 2 ^ 24"
  define Z :: real where "Z = 8975811 / 2 ^ 23"
  have fin: "f32_finite (f32_mul a zoom_multiplier)"
    and err: "\<bar>b - x * z\<bar> \<le> \<bar>x * z\<bar> / 2 ^ 24 + 2 powi (- 150)"
    using f32_mul_zoom [OF assms] by (simp_all add: x_def b_def z_def f32_real_zoom_multiplier)
  have c: "z / 2 ^ 24 + \<bar>z - 1 / Z\<bar> \<le> (1 / Z) / 2 ^ 22"
    by (simp add: z_def Z_def field_simps)
  have z0: "0 \<le> z" by (simp add: z_def)
  have Z0: "0 < Z" by (simp add: Z_def)
  have "\<bar>b - x / Z\<bar> \<le> \<bar>b - x * z\<bar> + \<bar>x * z - x / Z\<bar>" by simp
  also have "\<bar>x * z - x / Z\<bar> = \<bar>x\<bar> * \<bar>z - 1 / Z\<bar>"
    by (simp add: abs_mult right_diff_distrib flip: abs_mult)
  also have "\<bar>b - x * z\<bar> + \<bar>x\<bar> * \<bar>z - 1 / Z\<bar>
      \<le> \<bar>x\<bar> * (z / 2 ^ 24) + 2 powi (- 150) + \<bar>x\<bar> * \<bar>z - 1 / Z\<bar>"
    using err z0 by (simp add: abs_mult)
  also have "\<dots> = \<bar>x\<bar> * (z / 2 ^ 24 + \<bar>z - 1 / Z\<bar>) + 2 powi (- 150)"
    by (simp add: algebra_simps)
  also have "\<dots> \<le> \<bar>x\<bar> * ((1 / Z) / 2 ^ 22) + 2 powi (- 150)"
    by (intro add_right_mono mult_left_mono [OF c]) simp
  also have "\<dots> \<le> \<bar>x / Z\<bar> / 2 ^ 22 + 1 / 2 ^ 149"
    using Z0 by (simp add: abs_mult)
  finally show ?thesis
    using fin by (simp add: zoomed_def x_def b_def Z_def f32_real_ZOOM_FACTOR)
qed

section \<open>The zoom in single precision\<close>

lemma zoom_steady_MAX_DEPTH:
  assumes "depth w = 0" "nat MAX_DEPTH \<le> n"
  shows "(zoom_step fp zm ^^ n) w = (zoom_step fp zm ^^ nat MAX_DEPTH) w"
  using zoom_steady [OF assms(1), of n fp zm] assms(2) by (simp add: MAX_DEPTH_def)

text \<open>
  C8. In single precision, one zooming transition (a frame that ends with
  \<open>depth < MAX_DEPTH\<close>) of a window whose deltas and offsets are finite numbers adds one
  to the depth and leaves in every delta and every offset, of both axes and of all four
  lanes, a finite number that is the old value divided by \<open>ZOOM_FACTOR\<close> up to the
  tolerance of \<open>zoomed\<close>: the relative error \<open>1 / 2 ^ 22\<close> and the absolute error \<open>1 / 2 ^ 149\<close>.
  From a window of depth 0, the window after any number of frames from \<open>MAX_DEPTH\<close> on is
  the window after \<open>MAX_DEPTH\<close> frames: deltas and offsets have stopped changing.
\<close>

theorem zoom_transition:
  assumes "depth w < MAX_DEPTH"
    and "all_lanes f32_finite (delta_x4 w)" "all_lanes f32_finite (x_offset4 w)"
    and "f32_finite (delta_y w)" "f32_finite (y_offset w)"
    and "depth w0 = 0" "nat MAX_DEPTH \<le> n"
  shows "depth (zoom_step ieee_single zoom_multiplier w) = depth w + 1
       \<and> all_lanes2 zoomed (delta_x4 w) (delta_x4 (zoom_step ieee_single zoom_multiplier w))
       \<and> all_lanes2 zoomed (x_offset4 w) (x_offset4 (zoom_step ieee_single zoom_multiplier w))
       \<and> zoomed (delta_y w) (delta_y (zoom_step ieee_single zoom_multiplier w))
       \<and> zoomed (y_offset w) (y_offset (zoom_step ieee_single zoom_multiplier w))
       \<and> (zoom_step ieee_single zoom_multiplier ^^ n) w0
           = (zoom_step ieee_single zoom_multiplier ^^ nat MAX_DEPTH) w0"
proof -
  have lanes: "all_lanes2 zoomed v (mm_mul_ps ieee_single v (mm_set1_ps zoom_multiplier))"
    if "all_lanes f32_finite v" for v
    using that
    by (cases v) (simp add: mm_mul_ps_def mm_set1_ps_def ieee_single_def f32_mul_zoomed)
  have one: "zoomed a (fmul ieee_single a zoom_multiplier)" if "f32_finite a" for a
    using that by (simp add: ieee_single_def f32_mul_zoomed)
  show ?thesis
    using assms(1) lanes [OF assms(2)] lanes [OF assms(3)] one [OF assms(4)] one [OF assms(5)]
      zoom_steady_MAX_DEPTH [OF assms(6,7), of ieee_single zoom_multiplier]
    by (simp add: zoom_step_def)
qed
section \<open>Two pixels of the first frame\<close>

text \<open>The points \<open>(-0.22800647, -0.83263636)\<close> and \<open>(-0.23372088, -0.74692208)\<close>, by
  their bits. The recurrence leaves the limit after 63 steps from the first and after 64
  steps from the second.\<close>

lemma escape_after_63: "scalar_member ieee_single MAX_ITS 0xBE697A87 0xBF5527A8 = 63"
  by code_simp

lemma escape_after_64: "scalar_member ieee_single MAX_ITS 0xBE6F5487 0xBF3F3649 = 64"
  by code_simp

lemma unat_MAX_ITS: "unat MAX_ITS = 500"
  by (simp add: MAX_ITS_def)

lemma member4_count_63:
  "member4 ieee_single MAX_ITS (mm_set1_ps 0xBE697A87) (mm_set1_ps 0xBF5527A8)
    = Some (mm_set1_epi32 63)"
  by (simp add: member4_lanewise mm_set1_ps_def mm_set1_epi32_def escape_after_63)

lemma member4_count_64:
  "member4 ieee_single MAX_ITS (mm_set1_ps 0xBE6F5487) (mm_set1_ps 0xBF3F3649)
    = Some (mm_set1_epi32 64)"
  by (simp add: member4_lanewise mm_set1_ps_def mm_set1_epi32_def escape_after_64)

lemma color_index_of_63: "color_index4 MAX_ITS (mm_set1_epi32 63) = mm_set1_epi32 64"
  by (simp add: color_index4_lanes mm_set1_epi32_def lane_color_index_def MAX_ITS_def)

lemma color_index_of_64: "color_index4 MAX_ITS (mm_set1_epi32 64) = mm_set1_epi32 1"
  by (simp add: color_index4_lanes mm_set1_epi32_def lane_color_index_def MAX_ITS_def)

lemma pixel_rgb_1: "pixel_rgb 1 = Some (255, 180, 4)"
  by code_simp

lemma authored_ramp_24: "authored_ramp (64 mod PAL_SIZE) = (166, 59, 4)"
  by code_simp

section \<open>The claims at concrete inputs\<close>

text \<open>C1 at a batch of the points 0, 2, -1 and the first pixel above.\<close>

theorem member4_equals_scalar_witness:
  "map_option (lanewise unat)
     (member4 ieee_single MAX_ITS (Vec4 0 0x40000000 0xBF800000 0xBE697A87)
        (Vec4 0 0 0 0xBF5527A8))
    = Some (Vec4 500 0 500 63)"
  using member4_equals_scalar [of ieee_single MAX_ITS
      "Vec4 0 0x40000000 0xBF800000 0xBE697A87" "Vec4 0 0 0 0xBF5527A8"]
  by (simp add: scalar_member_zero scalar_member_two scalar_member_minus_one escape_after_63
        unat_MAX_ITS)

text \<open>C2 at the counts 500, 63, 64 and 0.\<close>

theorem color_index_mapping_witness:
  "lanewise unat (color_index4 MAX_ITS (Vec4 500 63 64 0)) = Vec4 0 64 1 1"
  using color_index_mapping [of "Vec4 500 63 64 0"] by (simp add: MAX_ITS_def)

text \<open>
  C3 as stated fails: the batch of the first pixel above has the iteration count 63 in
  every lane, 63 is below \<open>MAX_ITS\<close>, and the colour index computed from 63 is 64, which
  is not in [0, 63].
\<close>

theorem color_index_64_counterexample:
  "member4 ieee_single MAX_ITS (mm_set1_ps 0xBE697A87) (mm_set1_ps 0xBF5527A8)
     = Some (mm_set1_epi32 63)
   \<and> sint (63 :: 32 word) < sint MAX_ITS
   \<and> lanewise sint (color_index4 MAX_ITS (mm_set1_epi32 63)) = Vec4 64 64 64 64
   \<and> \<not> all_lanes (\<lambda>i. sint i \<le> 63) (color_index4 MAX_ITS (mm_set1_epi32 63))"
proof -
  have idx: "color_index4 MAX_ITS (mm_set1_epi32 63) = Vec4 64 64 64 64"
    unfolding color_index_of_63 by (simp add: mm_set1_epi32_def)
  have "sint (63 :: 32 word) < sint MAX_ITS"
    by (simp add: MAX_ITS_def)
  then show ?thesis
    unfolding idx by (simp add: member4_count_63)
qed

theorem color_index_range_witness:
  "all_lanes2 (\<lambda>k i. 0 \<le> sint i \<and> sint i \<le> 64 \<and> (k = MAX_ITS \<or> 1 \<le> sint i))
     (Vec4 500 63 64 0) (color_index4 MAX_ITS (Vec4 500 63 64 0))
   \<and> lanewise sint (color_index4 MAX_ITS (Vec4 500 63 64 0)) = Vec4 0 64 1 1"
  using color_index_range [of "Vec4 500 63 64 0"]
  by (simp add: color_index4_lanes lane_color_index_def MAX_ITS_def)

text \<open>
  C4 fails on the code. The batch of the second pixel above has the iteration count 64
  in every lane; mandelbrot() gives it the colour of palette entry 1, the first colour of
  the authored ramp, where position \<open>64 mod 40 = 24\<close> of the ramp holds another colour.
\<close>

theorem palette_cycle_not_mod_40:
  "member4 ieee_single MAX_ITS (mm_set1_ps 0xBE6F5487) (mm_set1_ps 0xBF3F3649)
     = Some (mm_set1_epi32 64)
   \<and> batch_colors ieee_single MAX_ITS (mm_set1_ps 0xBE6F5487) (mm_set1_ps 0xBF3F3649)
     = Some (Vec4 (Some (255, 180, 4)) (Some (255, 180, 4)) (Some (255, 180, 4))
               (Some (255, 180, 4)))
   \<and> authored_ramp (64 mod PAL_SIZE) = (166, 59, 4)"
proof -
  have "lanewise pixel_rgb (color_index4 MAX_ITS (mm_set1_epi32 64))
      = Vec4 (Some (255, 180, 4)) (Some (255, 180, 4)) (Some (255, 180, 4)) (Some (255, 180, 4))"
    unfolding color_index_of_64 by (simp add: mm_set1_epi32_def pixel_rgb_1)
  then show ?thesis
    by (simp add: batch_colors_def member4_count_64 authored_ramp_24)
qed

text \<open>C5 at the counts 500, 63, 64 and 0.\<close>

theorem palette_reads_in_bounds_witness:
  "length pal = 3 * 65
   \<and> pixel_rgb 64 = Some (92, 21, 4)
   \<and> all_lanes (\<lambda>i. 0 \<le> sint i * 3 \<and> sint i * 3 + 2 < int (length pal) \<and> pixel_rgb i \<noteq> None)
       (color_index4 MAX_ITS (Vec4 500 63 64 0))"
  by (rule palette_reads_in_bounds)

text \<open>C6 at the batch of four points 0, in the state after the first pass of the loop.\<close>

lemma first_pass_at_zero:
  "mask_var (member4_init ieee_single MAX_ITS (mm_set1_ps 0) (mm_set1_ps 0)) \<noteq> 0xFFFF"
  by (simp add: member4_init_after mask_after_passes lane_done_def lane_alive_0
        ieee_zero_orbit mm_set1_ps_def unat_MAX_ITS)

theorem member4_counts_in_range_witness:
  "member4_run ieee_single (mm_set1_ps 0) (mm_set1_ps 0)
     (member4_init ieee_single MAX_ITS (mm_set1_ps 0) (mm_set1_ps 0))
     (member4_body ieee_single (mm_set1_ps 0) (mm_set1_ps 0)
        (member4_init ieee_single MAX_ITS (mm_set1_ps 0) (mm_set1_ps 0)))
   \<and> all_lanes (\<lambda>w. 0 \<le> sint w \<and> sint w \<le> sint MAX_ITS)
       (iterations4 (member4_body ieee_single (mm_set1_ps 0) (mm_set1_ps 0)
          (member4_init ieee_single MAX_ITS (mm_set1_ps 0) (mm_set1_ps 0))))
   \<and> (\<exists>r. member4 ieee_single MAX_ITS (mm_set1_ps 0) (mm_set1_ps 0) = Some r
          \<and> all_lanes (\<lambda>k. 0 \<le> sint k \<and> sint k \<le> sint MAX_ITS) r)"
proof -
  have run: "member4_run ieee_single (mm_set1_ps 0) (mm_set1_ps 0)
     (member4_init ieee_single MAX_ITS (mm_set1_ps 0) (mm_set1_ps 0))
     (member4_body ieee_single (mm_set1_ps 0) (mm_set1_ps 0)
        (member4_init ieee_single MAX_ITS (mm_set1_ps 0) (mm_set1_ps 0)))"
    by (rule run_pass [OF run_start first_pass_at_zero])
  show ?thesis
    using member4_counts_in_range [OF run] run by blast
qed

text \<open>C7 at the batch of the points 0, 2, -1 and 2.\<close>

theorem member4_loop_terminates_witness:
  "\<exists>n. n \<le> unat MAX_ITS
     \<and> member4_loop ieee_single (Vec4 0 0x40000000 0xBF800000 0x40000000) (Vec4 0 0 0 0)
         (member4_init ieee_single MAX_ITS (Vec4 0 0x40000000 0xBF800000 0x40000000) (Vec4 0 0 0 0))
         = Some ((member4_body ieee_single (Vec4 0 0x40000000 0xBF800000 0x40000000) (Vec4 0 0 0 0) ^^ n)
             (member4_init ieee_single MAX_ITS (Vec4 0 0x40000000 0xBF800000 0x40000000) (Vec4 0 0 0 0)))
     \<and> all_lanes2 (\<lambda>ne its. ne = 0 \<or> its = 0)
         (not_escape4 ((member4_body ieee_single (Vec4 0 0x40000000 0xBF800000 0x40000000) (Vec4 0 0 0 0) ^^ n)
             (member4_init ieee_single MAX_ITS (Vec4 0 0x40000000 0xBF800000 0x40000000) (Vec4 0 0 0 0))))
         (iterations4 ((member4_body ieee_single (Vec4 0 0x40000000 0xBF800000 0x40000000) (Vec4 0 0 0 0) ^^ n)
             (member4_init ieee_single MAX_ITS (Vec4 0 0x40000000 0xBF800000 0x40000000) (Vec4 0 0 0 0))))
     \<and> member4 ieee_single MAX_ITS (Vec4 0 0x40000000 0xBF800000 0x40000000) (Vec4 0 0 0 0) \<noteq> None"
  by (rule member4_loop_terminates)

text \<open>C9 at the batch of four points 2: \<open>2\<^sup>2 + 0\<^sup>2\<close> is 4.0, not below the limit.\<close>

theorem member4_immediate_escape_witness:
  "all_lanes2 (\<lambda>cx cy. escaped ieee_single (cx, cy)) (mm_set1_ps 0x40000000) (mm_set1_ps 0)
   \<and> member4 ieee_single MAX_ITS (mm_set1_ps 0x40000000) (mm_set1_ps 0) = Some (mm_set1_epi32 0)"
proof -
  have esc: "all_lanes2 (\<lambda>cx cy. escaped ieee_single (cx, cy)) (mm_set1_ps 0x40000000) (mm_set1_ps 0)"
    by (simp add: mm_set1_ps_def ieee_two_escaped)
  show ?thesis
    using member4_immediate_escape [OF esc] esc by blast
qed

text \<open>C10 at the batch of the points 0, -1, 2 and 2, in the lanes 0 and 1.\<close>

theorem member4_points_of_the_set_witness:
  "(0 :: nat) < 4
   \<and> (lane 0 (Vec4 0 0xBF800000 0x40000000 0x40000000) = (0 :: float32)
      \<or> lane 0 (Vec4 0 0xBF800000 0x40000000 0x40000000) = (0xBF800000 :: float32))
   \<and> lane 0 (Vec4 0 0 0 0) = (0 :: float32)
   \<and> (\<exists>r. member4 ieee_single MAX_ITS (Vec4 0 0xBF800000 0x40000000 0x40000000) (Vec4 0 0 0 0)
            = Some r \<and> lane 0 r = MAX_ITS)
   \<and> (\<exists>r. member4 ieee_single MAX_ITS (Vec4 0 0xBF800000 0x40000000 0x40000000) (Vec4 0 0 0 0)
            = Some r \<and> lane 1 r = MAX_ITS)"
  using member4_points_of_the_set [of 0 "Vec4 0 0xBF800000 0x40000000 0x40000000" "Vec4 0 0 0 0" MAX_ITS]
    member4_points_of_the_set [of 1 "Vec4 0 0xBF800000 0x40000000 0x40000000" "Vec4 0 0 0 0" MAX_ITS]
  by simp


text \<open>C8 at the window of the first frame, and 200 frames.\<close>

lemma initial_window_finite:
  "all_lanes f32_finite (delta_x4 initial_window)"
  "all_lanes f32_finite (x_offset4 initial_window)"
  "f32_finite (delta_y initial_window)"
  "f32_finite (y_offset initial_window)"
  by code_simp+

lemma initial_window_depth: "depth initial_window = 0"
  by (simp add: initial_window_def Let_def)

theorem zoom_transition_witness:
  "depth initial_window < MAX_DEPTH
   \<and> all_lanes f32_finite (delta_x4 initial_window)
   \<and> all_lanes f32_finite (x_offset4 initial_window)
   \<and> f32_finite (delta_y initial_window) \<and> f32_finite (y_offset initial_window)
   \<and> depth initial_window = 0 \<and> nat MAX_DEPTH \<le> 200
   \<and> depth (zoom_step ieee_single zoom_multiplier initial_window) = depth initial_window + 1
   \<and> all_lanes2 zoomed (delta_x4 initial_window)
        (delta_x4 (zoom_step ieee_single zoom_multiplier initial_window))
   \<and> all_lanes2 zoomed (x_offset4 initial_window)
        (x_offset4 (zoom_step ieee_single zoom_multiplier initial_window))
   \<and> zoomed (delta_y initial_window) (delta_y (zoom_step ieee_single zoom_multiplier initial_window))
   \<and> zoomed (y_offset initial_window) (y_offset (zoom_step ieee_single zoom_multiplier initial_window))
   \<and> (zoom_step ieee_single zoom_multiplier ^^ 200) initial_window
       = (zoom_step ieee_single zoom_multiplier ^^ nat MAX_DEPTH) initial_window"
proof -
  have d: "depth initial_window < MAX_DEPTH" "nat MAX_DEPTH \<le> 200"
    by (simp_all add: initial_window_depth MAX_DEPTH_def)
  show ?thesis
    using zoom_transition [OF d(1) initial_window_finite initial_window_depth d(2)]
      d initial_window_finite initial_window_depth
    by blast
qed

end
